theory Spec2Isabelle
  imports Complex_Main "HOL-Library.Log_Nat" "HOL-Library.Char_ord" "HOL-Library.List_Lexorder"
begin

section \<open>Python values and library primitives\<close>

text \<open>
  Python integers are unbounded: \<open>int\<close>. Python strings are modelled as \<open>string\<close>
  (characters are bytes, so the string primitives below are the ASCII fragment of
  \<open>str.strip\<close>, \<open>str.lower\<close> and \<open>str.splitlines\<close>). Every \<open>raise\<close> of the source is
  a value of \<open>error\<close>; a function that can raise returns \<open>error + 'a\<close>.
\<close>

datatype error =
    ValueError string
  | FileNotFoundError string
  | NotADirectoryError string
  | ImportError string
  | IndexError
  | TypeError

text \<open>\<open>xs[i]\<close>: a negative index counts from the end, an index out of range raises.\<close>

definition py_index :: "'a list \<Rightarrow> int \<Rightarrow> error + 'a" where
  "py_index xs i =
     (if 0 \<le> i \<and> i < int (length xs) then Inr (xs ! nat i)
      else if i < 0 \<and> - int (length xs) \<le> i then Inr (xs ! nat (int (length xs) + i))
      else Inl IndexError)"

text \<open>\<open>str.isspace\<close> on one ASCII character: TAB, LF, VT, FF, CR, FS, GS, RS, US, space.\<close>

definition py_isspace :: "char \<Rightarrow> bool" where
  "py_isspace c = (of_char c \<in> {9, 10, 11, 12, 13, 28, 29, 30, 31, 32 :: nat})"

definition py_lstrip :: "string \<Rightarrow> string" where
  "py_lstrip s = dropWhile py_isspace s"

definition py_rstrip :: "string \<Rightarrow> string" where
  "py_rstrip s = rev (dropWhile py_isspace (rev s))"

definition py_strip :: "string \<Rightarrow> string" where
  "py_strip s = py_lstrip (py_rstrip s)"

text \<open>\<open>text.rstrip("\n")\<close>: removes every trailing line feed.\<close>

definition py_rstrip_nl :: "string \<Rightarrow> string" where
  "py_rstrip_nl s = rev (dropWhile (\<lambda>c. c = CHR 0x0A) (rev s))"

definition py_lower :: "string \<Rightarrow> string" where
  "py_lower s =
     map (\<lambda>c. if 65 \<le> (of_char c :: nat) \<and> (of_char c :: nat) \<le> 90
               then char_of ((of_char c :: nat) + 32) else c) s"

text \<open>\<open>sep.join(parts)\<close>.\<close>

fun py_join :: "string \<Rightarrow> string list \<Rightarrow> string" where
  "py_join sep [] = []"
| "py_join sep [x] = x"
| "py_join sep (x # y # ys) = x @ sep @ py_join sep (y # ys)"

text \<open>
  \<open>str.splitlines()\<close>: the line boundaries among the ASCII characters are LF, CR, CR LF,
  VT, FF, FS, GS and RS; the boundaries are not kept and a trailing boundary opens no
  empty last line. \<open>cur\<close> is the line being read, reversed.
\<close>

definition py_linebreak :: "char \<Rightarrow> bool" where
  "py_linebreak c = (of_char c \<in> {10, 11, 12, 13, 28, 29, 30 :: nat})"

fun splitlines_from :: "string \<Rightarrow> string \<Rightarrow> string list" where
  "splitlines_from cur [] = (if cur = [] then [] else [rev cur])"
| "splitlines_from cur (c # cs) =
     (if c = CHR 0x0D then
        (case cs of
           d # ds \<Rightarrow> if d = CHR 0x0A then rev cur # splitlines_from [] ds
                     else rev cur # splitlines_from [] cs
         | [] \<Rightarrow> [rev cur])
      else if py_linebreak c then rev cur # splitlines_from [] cs
      else splitlines_from (c # cur) cs)"

definition py_splitlines :: "string \<Rightarrow> string list" where
  "py_splitlines s = splitlines_from [] s"

text \<open>
  Iterating a text file (\<open>for line in f\<close>): the content is cut after every line feed and
  each line keeps its line feed; the last line has none when the file does not end in one.
\<close>

fun iter_lines_from :: "string \<Rightarrow> string \<Rightarrow> string list" where
  "iter_lines_from cur [] = (if cur = [] then [] else [rev cur])"
| "iter_lines_from cur (c # cs) =
     (if c = CHR 0x0A then rev (c # cur) # iter_lines_from [] cs
      else iter_lines_from (c # cur) cs)"

definition file_iter_lines :: "string \<Rightarrow> string list" where
  "file_iter_lines s = iter_lines_from [] s"

section \<open>The collaborators outside the nodes\<close>

text \<open>
  The operating system and the file-format libraries are parameters of every node, one
  field per call the source makes: \<open>os.path.expanduser\<close>, \<open>os.path.isfile\<close>,
  \<open>os.path.isdir\<close>, \<open>os.path.getmtime\<close>, \<open>os.path.splitext\<close>, \<open>os.path.join\<close>,
  \<open>glob.glob\<close>, the decoded content of a text file, the rows \<open>csv.reader\<close> yields, the
  field names and row dictionaries \<open>csv.DictReader\<close> yields (no field names for an empty
  file; rows as association lists from field name to cell), whether python-docx is
  installed, and the paragraph texts of a document. Reads of an existing file succeed.
\<close>

record filesystem =
  expanduser :: "string \<Rightarrow> string"
  isfile :: "string \<Rightarrow> bool"
  isdir :: "string \<Rightarrow> bool"
  getmtime :: "string \<Rightarrow> real"
  splitext :: "string \<Rightarrow> string \<times> string"
  path_join :: "string \<Rightarrow> string \<Rightarrow> string"
  glob :: "string \<Rightarrow> string list"
  read_content :: "string \<Rightarrow> string"
  csv_reader :: "string \<Rightarrow> string list list"
  csv_DictReader :: "string \<Rightarrow> string list option \<times> (string \<times> string) list list"
  docx_installed :: bool
  docx_paragraphs :: "string \<Rightarrow> string list"

text \<open>\<open>row.get(column, "")\<close> on a row dictionary.\<close>

definition row_get :: "(string \<times> string) list \<Rightarrow> string \<Rightarrow> string" where
  "row_get row column = (case map_of row column of None \<Rightarrow> [] | Some v \<Rightarrow> v)"

section \<open>Auto Prompt Line Loader (nodes/auto\_prompt\_line.py)\<close>

record seq_state =
  s_initialized :: bool
  s_file_path :: string
  s_file_mtime :: "real option"
  s_csv_column :: string
  s_strip_whitespace :: bool
  s_start_value :: int
  s_step :: int
  s_max_steps :: int
  s_auto_reset :: bool
  s_lines :: "string list"
  s_total_lines :: int
  s_next_index :: int
  s_emitted_steps :: int
  s_last_prompt :: string
  s_last_line_index :: int
  s_last_step_index :: int

text \<open>\<open>__init__\<close>.\<close>

definition seq_init :: seq_state where
  "seq_init =
     \<lparr> s_initialized = False, s_file_path = [], s_file_mtime = None, s_csv_column = [],
       s_strip_whitespace = True, s_start_value = 1, s_step = 1, s_max_steps = - 1,
       s_auto_reset = False, s_lines = [], s_total_lines = 0, s_next_index = 1,
       s_emitted_steps = 0, s_last_prompt = [], s_last_line_index = 0,
       s_last_step_index = 0 \<rparr>"

text \<open>\<open>_normalize_index\<close>. Python's \<open>%\<close> is floor modulo, as \<open>mod\<close> on \<open>int\<close> is.\<close>

definition normalize_index :: "int \<Rightarrow> int \<Rightarrow> error + int" where
  "normalize_index index tot =
     (if tot = 0 then Inl (ValueError ''No lines available from the loaded file.'')
      else Inr (((index - 1) mod tot) + 1))"

definition seq_read_txt :: "filesystem \<Rightarrow> string \<Rightarrow> string list" where
  "seq_read_txt fs path = py_splitlines (read_content fs path)"

definition seq_read_md :: "filesystem \<Rightarrow> string \<Rightarrow> string list" where
  "seq_read_md fs path = seq_read_txt fs path"

definition seq_read_csv :: "filesystem \<Rightarrow> string \<Rightarrow> string \<Rightarrow> error + string list" where
  "seq_read_csv fs path column =
     (if column \<noteq> [] then
        (case csv_DictReader fs path of
           (None, rows) \<Rightarrow> Inl TypeError
         | (Some fieldnames, rows) \<Rightarrow>
             if column \<notin> set fieldnames then Inl (ValueError ''Column not found in CSV header'')
             else Inr (map (\<lambda>row. row_get row column) rows))
      else Inr (map (py_join '', '') (csv_reader fs path)))"

definition seq_read_docx :: "filesystem \<Rightarrow> string \<Rightarrow> error + string list" where
  "seq_read_docx fs path =
     (if \<not> docx_installed fs then Inl (ImportError ''python-docx is required for DOCX support.'')
      else Inr (filter (\<lambda>t. t \<noteq> []) (docx_paragraphs fs path)))"

definition load_lines :: "filesystem \<Rightarrow> string \<Rightarrow> string \<Rightarrow> error + string list" where
  "load_lines fs path csv_column =
     (let ext = py_lower (snd (splitext fs path)) in
      if ext = ''.txt'' \<or> ext = ''.log'' then Inr (seq_read_txt fs path)
      else if ext = ''.md'' then Inr (seq_read_md fs path)
      else if ext = ''.csv'' then seq_read_csv fs path csv_column
      else if ext = ''.docx'' then seq_read_docx fs path
      else Inl (ValueError ''Unsupported file extension''))"

definition seq_should_reset ::
  "seq_state \<Rightarrow> string \<Rightarrow> real \<Rightarrow> int \<Rightarrow> int \<Rightarrow> int \<Rightarrow> bool \<Rightarrow> string \<Rightarrow> bool \<Rightarrow> bool \<Rightarrow> bool" where
  "seq_should_reset state path file_mtime start_value step max_steps auto_reset csv_column
       strip_whitespace reset =
     (if reset \<or> \<not> s_initialized state then True
      else (s_file_path state \<noteq> path
          \<or> s_file_mtime state \<noteq> Some file_mtime
          \<or> s_start_value state \<noteq> start_value
          \<or> s_step state \<noteq> step
          \<or> s_max_steps state \<noteq> max_steps
          \<or> s_auto_reset state \<noteq> auto_reset
          \<or> s_csv_column state \<noteq> csv_column
          \<or> s_strip_whitespace state \<noteq> strip_whitespace))"

text \<open>\<open>_reset_state\<close>: the update writes every key of the state dictionary.\<close>

definition seq_reset_state ::
  "filesystem \<Rightarrow> seq_state \<Rightarrow> string \<Rightarrow> real \<Rightarrow> int \<Rightarrow> int \<Rightarrow> int \<Rightarrow> bool \<Rightarrow> string \<Rightarrow> bool
     \<Rightarrow> error + seq_state" where
  "seq_reset_state fs state path file_mtime start_value step max_steps auto_reset csv_column
       strip_whitespace =
     (case load_lines fs path csv_column of
        Inl e \<Rightarrow> Inl e
      | Inr lines \<Rightarrow>
          if lines = [] then Inl (ValueError ''The selected file contained zero usable lines.'')
          else Inr (state
            \<lparr> s_initialized := True, s_file_path := path, s_file_mtime := Some file_mtime,
              s_csv_column := csv_column, s_strip_whitespace := strip_whitespace,
              s_start_value := start_value, s_step := step, s_max_steps := max_steps,
              s_auto_reset := auto_reset, s_lines := lines,
              s_total_lines := int (length lines), s_next_index := start_value,
              s_emitted_steps := 0, s_last_prompt := [], s_last_line_index := 0,
              s_last_step_index := 0 \<rparr>))"

type_synonym seq_output = "string \<times> int \<times> int \<times> int \<times> bool"

text \<open>
  The emission at the end of \<open>next_prompt\<close> (from \<open>total = state["total_lines"]\<close> to the
  final \<open>return\<close>). Both raises (\<open>_normalize_index\<close>, the list index) come before the
  first write to the state.
\<close>

definition seq_emit :: "seq_state \<Rightarrow> int \<Rightarrow> bool \<Rightarrow> error + (seq_output \<times> seq_state)" where
  "seq_emit state max_steps strip_whitespace =
     (let tot = s_total_lines state in
      case normalize_index (s_next_index state) tot of
        Inl e \<Rightarrow> Inl e
      | Inr index \<Rightarrow>
          (case py_index (s_lines state) (index - 1) of
             Inl e \<Rightarrow> Inl e
           | Inr raw_prompt \<Rightarrow>
               let prompt = (if strip_whitespace then py_strip raw_prompt else raw_prompt);
                   step_index = s_emitted_steps state + 1;
                   done = (max_steps \<ge> 0 \<and> step_index \<ge> max_steps)
               in Inr ((prompt, index, step_index, tot, done),
                       state \<lparr> s_emitted_steps := step_index,
                               s_next_index := s_next_index state + s_step state,
                               s_last_prompt := prompt,
                               s_last_line_index := index,
                               s_last_step_index := step_index \<rparr>)))"

text \<open>
  The first part of \<open>next_prompt\<close>: the checks of the path and the reset decided by
  \<open>_should_reset\<close>. The result is the state the rest of the call works on.
\<close>

definition seq_gate ::
  "filesystem \<Rightarrow> seq_state \<Rightarrow> string \<Rightarrow> int \<Rightarrow> int \<Rightarrow> int \<Rightarrow> bool \<Rightarrow> bool \<Rightarrow> string \<Rightarrow> bool
     \<Rightarrow> error + seq_state" where
  "seq_gate fs state file_path start_value step max_steps auto_reset reset csv_column
       strip_whitespace =
     (if file_path = [] then Inl (ValueError ''file_path is required.'')
      else
        let path = expanduser fs file_path in
        if \<not> isfile fs path then Inl (FileNotFoundError path)
        else
          let file_mtime = getmtime fs path in
          if seq_should_reset state path file_mtime start_value step max_steps auto_reset
               csv_column strip_whitespace reset
          then seq_reset_state fs state path file_mtime start_value step max_steps auto_reset
                 csv_column strip_whitespace
          else Inr state)"

definition next_prompt ::
  "filesystem \<Rightarrow> seq_state \<Rightarrow> string \<Rightarrow> int \<Rightarrow> int \<Rightarrow> int \<Rightarrow> bool \<Rightarrow> bool \<Rightarrow> string \<Rightarrow> bool
     \<Rightarrow> error + (seq_output \<times> seq_state)" where
  "next_prompt fs state0 file_path start_value step max_steps auto_reset reset csv_column
       strip_whitespace =
     (case seq_gate fs state0 file_path start_value step max_steps auto_reset reset csv_column
             strip_whitespace of
        Inl e \<Rightarrow> Inl e
      | Inr state \<Rightarrow>
          if max_steps \<ge> 0 \<and> s_emitted_steps state \<ge> max_steps then
            if s_auto_reset state then
              (case seq_reset_state fs state (expanduser fs file_path)
                      (getmtime fs (expanduser fs file_path)) start_value step max_steps
                      auto_reset csv_column strip_whitespace of
                 Inl e \<Rightarrow> Inl e
               | Inr state' \<Rightarrow> seq_emit state' max_steps strip_whitespace)
            else Inr ((s_last_prompt state, s_last_line_index state, s_last_step_index state,
                       s_total_lines state, True), state)
          else seq_emit state max_steps strip_whitespace)"

text \<open>
  \<open>n\<close> further calls of \<open>next_prompt\<close> with the same inputs and no explicit reset: the
  outputs in call order and the final state, or the first error.
\<close>

fun seq_calls ::
  "nat \<Rightarrow> filesystem \<Rightarrow> seq_state \<Rightarrow> string \<Rightarrow> int \<Rightarrow> int \<Rightarrow> int \<Rightarrow> bool \<Rightarrow> string \<Rightarrow> bool
     \<Rightarrow> error + (seq_output list \<times> seq_state)" where
  "seq_calls 0 fs state file_path start_value step max_steps auto_reset csv_column
       strip_whitespace = Inr ([], state)"
| "seq_calls (Suc n) fs state file_path start_value step max_steps auto_reset csv_column
       strip_whitespace =
     (case next_prompt fs state file_path start_value step max_steps auto_reset False
             csv_column strip_whitespace of
        Inl e \<Rightarrow> Inl e
      | Inr (out, state') \<Rightarrow>
          (case seq_calls n fs state' file_path start_value step max_steps auto_reset
                  csv_column strip_whitespace of
             Inl e \<Rightarrow> Inl e
           | Inr (outs, state'') \<Rightarrow> Inr (out # outs, state'')))"

text \<open>The states an instance can be in while the files do not change.\<close>

inductive seq_reachable :: "filesystem \<Rightarrow> seq_state \<Rightarrow> bool" for fs :: filesystem where
  seq_reachable_init: "seq_reachable fs seq_init"
| seq_reachable_call:
    "seq_reachable fs state \<Longrightarrow>
     next_prompt fs state file_path start_value step max_steps auto_reset reset csv_column
       strip_whitespace = Inr (out, state') \<Longrightarrow>
     seq_reachable fs state'"

definition seq_matches ::
  "seq_state \<Rightarrow> string \<Rightarrow> real \<Rightarrow> int \<Rightarrow> int \<Rightarrow> int \<Rightarrow> bool \<Rightarrow> string \<Rightarrow> bool \<Rightarrow> bool" where
  "seq_matches state path file_mtime start_value step max_steps auto_reset csv_column
       strip_whitespace =
     (s_initialized state \<and> s_file_path state = path \<and> s_file_mtime state = Some file_mtime
      \<and> s_start_value state = start_value \<and> s_step state = step
      \<and> s_max_steps state = max_steps \<and> s_auto_reset state = auto_reset
      \<and> s_csv_column state = csv_column \<and> s_strip_whitespace state = strip_whitespace)"

definition seq_inv :: "filesystem \<Rightarrow> seq_state \<Rightarrow> bool" where
  "seq_inv fs state =
     (s_initialized state \<longrightarrow>
        load_lines fs (s_file_path state) (s_csv_column state) = Inr (s_lines state)
      \<and> s_lines state \<noteq> []
      \<and> s_total_lines state = int (length (s_lines state))
      \<and> 0 \<le> s_emitted_steps state
      \<and> (s_max_steps state = 0 \<and> \<not> s_auto_reset state \<longrightarrow>
           s_emitted_steps state = 0 \<and> s_last_prompt state = [] \<and> s_last_line_index state = 0
         \<and> s_last_step_index state = 0 \<and> s_next_index state = s_start_value state))"

section \<open>Simple Number Counter (nodes/simple\_number\_counter.py)\<close>














section \<open>Prompt Line Loader (nodes/prompt\_line\_loader.py)\<close>








section \<open>Wildcard Prompt Assembler (nodes/wildcard\_prompt\_assembler.py)\<close>

text \<open>A record of a loaded file: \<open>{"line_index": idx, "text": text}\<close>.\<close>

datatype line_record = LineRecord (line_index: int) (line_text: string)

text \<open>An entry of \<open>self._cache\<close>.\<close>

record cache_entry =
  ce_mtime :: real
  ce_records :: "line_record list"
  ce_strip :: bool
  ce_ignore_blank :: bool

text \<open>
  The instance: \<open>_cache\<close> and \<open>_positions\<close> are dictionaries keyed by the string
  \<open>f"{path}::{column or ''}"\<close>, \<open>_global_step\<close> counts the calls of \<open>_make_rng\<close>.
\<close>

record composer_state =
  c_cache :: "string \<rightharpoonup> cache_entry"
  c_positions :: "string \<rightharpoonup> int"
  c_global_step :: int

definition composer_init :: composer_state where
  "composer_init = \<lparr> c_cache = Map.empty, c_positions = Map.empty, c_global_step = 0 \<rparr>"

text \<open>
  The \<open>random\<close> module: \<open>random.Random(seed)\<close> and \<open>rng.randrange(n)\<close>, which returns the
  draw and leaves the generator advanced. The generator \<open>random.Random()\<close> seeds from the
  operating system is an argument (\<open>os_rng\<close>) of the call that makes it.
\<close>

record 'g random_module =
  Random :: "int \<Rightarrow> 'g"
  randrange :: "'g \<Rightarrow> int \<Rightarrow> int \<times> 'g"

text \<open>The arguments of \<open>compose\<close>.\<close>

record compose_args =
  mode :: string
  selection_mode :: string
  auto_space :: bool
  strip_whitespace :: bool
  ignore_blank_lines :: bool
  random_seed :: int
  manual_paths :: string
  manifest_path :: string
  directory_path :: string
  directory_glob :: string
  max_files :: int
  custom_inserts :: string
  prefix_text :: string
  suffix_text :: string
  csv_column :: string
  reset :: bool

text \<open>\<open>_reset_state\<close>.\<close>

definition composer_reset_state :: "composer_state \<Rightarrow> composer_state" where
  "composer_reset_state state = state \<lparr> c_positions := Map.empty, c_global_step := 0 \<rparr>"

text \<open>\<open>_make_rng\<close>.\<close>

definition make_rng ::
  "'g random_module \<Rightarrow> 'g \<Rightarrow> composer_state \<Rightarrow> int \<Rightarrow> 'g \<times> composer_state" where
  "make_rng rm os_rng state seed =
     (let state' = state \<lparr> c_global_step := c_global_step state + 1 \<rparr> in
      if seed \<ge> 0 then (Random rm (seed + c_global_step state' - 1), state')
      else (os_rng, state'))"

text \<open>\<open>entries[:max_files]\<close>: a negative bound cuts from the end.\<close>

definition py_slice_to :: "'a list \<Rightarrow> int \<Rightarrow> 'a list" where
  "py_slice_to xs n = (if n \<ge> 0 then take (nat n) xs else take (nat (int (length xs) + n)) xs)"

definition startswith_hash :: "string \<Rightarrow> bool" where
  "startswith_hash s = (case s of [] \<Rightarrow> False | c # cs \<Rightarrow> c = CHR ''#'')"

definition parse_manual_paths :: "string \<Rightarrow> int \<Rightarrow> string list" where
  "parse_manual_paths paths bound =
     py_slice_to
       (map py_strip
          (filter (\<lambda>line. py_strip line \<noteq> [] \<and> \<not> startswith_hash (py_strip line))
             (py_splitlines paths)))
       bound"

definition load_manifest :: "filesystem \<Rightarrow> string \<Rightarrow> int \<Rightarrow> error + string list" where
  "load_manifest fs manifest bound =
     (if manifest = [] then Inl (ValueError ''Manifest mode requires manifest_path.'')
      else
        let path = expanduser fs manifest in
        if \<not> isfile fs path then Inl (FileNotFoundError path)
        else Inr (py_slice_to
                    (filter (\<lambda>line. line \<noteq> [] \<and> \<not> startswith_hash line)
                       (map py_strip (file_iter_lines (read_content fs path))))
                    bound))"

definition scan_directory :: "filesystem \<Rightarrow> string \<Rightarrow> string \<Rightarrow> int \<Rightarrow> error + string list" where
  "scan_directory fs dir pat bound =
     (if dir = [] then Inl (ValueError ''Directory mode requires directory_path.'')
      else
        let directory = expanduser fs dir in
        if \<not> isdir fs directory then Inl (NotADirectoryError directory)
        else
          let pattern = path_join fs directory (if pat \<noteq> [] then pat else ''*.txt'')
          in Inr (py_slice_to (sort (glob fs pattern)) bound))"

definition gather_files :: "filesystem \<Rightarrow> compose_args \<Rightarrow> error + string list" where
  "gather_files fs args =
     (if mode args = ''MANUAL'' then Inr (parse_manual_paths (manual_paths args) (max_files args))
      else if mode args = ''CONFIG_FILE''
        then load_manifest fs (manifest_path args) (max_files args)
      else if mode args = ''DIRECTORY''
        then scan_directory fs (directory_path args) (directory_glob args) (max_files args)
      else Inl (ValueError ''Unknown mode''))"

definition parse_custom_inserts :: "string \<Rightarrow> string list" where
  "parse_custom_inserts inserts =
     (if inserts = [] then [] else map py_rstrip_nl (py_splitlines inserts))"

text \<open>
  \<open>entry.split("::", 1)\<close> when \<open>"::" in entry\<close>: the text before the first \<open>::\<close> and the
  text after it; \<open>None\<close> when the entry has no \<open>::\<close>.
\<close>

fun split_colons :: "string \<Rightarrow> (string \<times> string) option" where
  "split_colons [] = None"
| "split_colons [c] = None"
| "split_colons (c # d # cs) =
     (if c = CHR '':'' \<and> d = CHR '':'' then Some ([], cs)
      else (case split_colons (d # cs) of
              None \<Rightarrow> None
            | Some (before, after) \<Rightarrow> Some (c # before, after)))"

text \<open>\<open>s or None\<close>.\<close>

definition or_None :: "string \<Rightarrow> string option" where
  "or_None s = (if s = [] then None else Some s)"

definition split_path_and_column :: "string \<Rightarrow> string \<Rightarrow> string \<times> string option" where
  "split_path_and_column entry default_column =
     (case split_colons entry of
        Some (path, column) \<Rightarrow> (py_strip path, or_None (py_strip column))
      | None \<Rightarrow> (py_strip entry, or_None (py_strip default_column)))"

text \<open>
  The loop of \<open>_read_text_file\<close> over the lines of the file, \<open>idx\<close> being the number
  \<open>enumerate(f, start=1)\<close> gives the first line left.
\<close>

fun text_records :: "bool \<Rightarrow> bool \<Rightarrow> int \<Rightarrow> string list \<Rightarrow> line_record list" where
  "text_records strip ignore_blank idx [] = []"
| "text_records strip ignore_blank idx (line # rest) =
     (let text0 = py_rstrip_nl line;
          text1 = (if strip then py_strip text0 else text0)
      in if ignore_blank \<and> text1 = [] then text_records strip ignore_blank (idx + 1) rest
         else LineRecord idx text1 # text_records strip ignore_blank (idx + 1) rest)"

definition read_text_file :: "filesystem \<Rightarrow> string \<Rightarrow> bool \<Rightarrow> bool \<Rightarrow> line_record list" where
  "read_text_file fs path strip ignore_blank =
     text_records strip ignore_blank 1 (file_iter_lines (read_content fs path))"

definition read_markdown :: "filesystem \<Rightarrow> string \<Rightarrow> bool \<Rightarrow> bool \<Rightarrow> line_record list" where
  "read_markdown fs path strip ignore_blank = read_text_file fs path strip ignore_blank"

text \<open>The two loops of \<open>_read_csv\<close>: over the row dictionaries, and over the row lists.\<close>

fun csv_dict_records ::
  "string \<Rightarrow> bool \<Rightarrow> bool \<Rightarrow> int \<Rightarrow> (string \<times> string) list list \<Rightarrow> line_record list" where
  "csv_dict_records column strip ignore_blank idx [] = []"
| "csv_dict_records column strip ignore_blank idx (row # rest) =
     (let text0 = row_get row column;
          text1 = (if strip then py_strip text0 else text0)
      in if ignore_blank \<and> text1 = []
         then csv_dict_records column strip ignore_blank (idx + 1) rest
         else LineRecord idx text1 # csv_dict_records column strip ignore_blank (idx + 1) rest)"

fun csv_list_records :: "bool \<Rightarrow> bool \<Rightarrow> int \<Rightarrow> string list list \<Rightarrow> line_record list" where
  "csv_list_records strip ignore_blank idx [] = []"
| "csv_list_records strip ignore_blank idx (row # rest) =
     (let text0 = py_join '', '' (map (\<lambda>cell. if strip then py_strip cell else cell) row);
          text1 = (if strip then py_strip text0 else text0)
      in if ignore_blank \<and> text1 = [] then csv_list_records strip ignore_blank (idx + 1) rest
         else LineRecord idx text1 # csv_list_records strip ignore_blank (idx + 1) rest)"

definition read_csv ::
  "filesystem \<Rightarrow> string \<Rightarrow> string option \<Rightarrow> bool \<Rightarrow> bool \<Rightarrow> error + line_record list" where
  "read_csv fs path column strip ignore_blank =
     (case column of
        Some col \<Rightarrow>
          (if col \<noteq> [] then
             (case csv_DictReader fs path of
                (None, rows) \<Rightarrow> Inl TypeError
              | (Some fieldnames, rows) \<Rightarrow>
                  if col \<notin> set fieldnames then Inl (ValueError ''CSV column not found'')
                  else Inr (csv_dict_records col strip ignore_blank 1 rows))
           else Inr (csv_list_records strip ignore_blank 1 (csv_reader fs path)))
      | None \<Rightarrow> Inr (csv_list_records strip ignore_blank 1 (csv_reader fs path)))"

text \<open>The loop of \<open>_read_docx\<close> over the paragraph texts.\<close>

fun docx_records :: "bool \<Rightarrow> bool \<Rightarrow> int \<Rightarrow> string list \<Rightarrow> line_record list" where
  "docx_records strip ignore_blank idx [] = []"
| "docx_records strip ignore_blank idx (paragraph # rest) =
     (let text1 = (if strip then py_strip paragraph else paragraph)
      in if ignore_blank \<and> text1 = [] then docx_records strip ignore_blank (idx + 1) rest
         else LineRecord idx text1 # docx_records strip ignore_blank (idx + 1) rest)"

definition read_docx :: "filesystem \<Rightarrow> string \<Rightarrow> bool \<Rightarrow> bool \<Rightarrow> error + line_record list" where
  "read_docx fs path strip ignore_blank =
     (if \<not> docx_installed fs then Inl (ImportError ''python-docx is required for DOCX support.'')
      else Inr (docx_records strip ignore_blank 1 (docx_paragraphs fs path)))"

text \<open>The dispatch on the extension in \<open>_load_file_lines\<close> (the part after a cache miss).\<close>

definition read_file_records ::
  "filesystem \<Rightarrow> string \<Rightarrow> string option \<Rightarrow> bool \<Rightarrow> bool \<Rightarrow> error + line_record list" where
  "read_file_records fs path column strip ignore_blank =
     (let ext = py_lower (snd (splitext fs path)) in
      if ext = ''.txt'' \<or> ext = ''.log'' then Inr (read_text_file fs path strip ignore_blank)
      else if ext = ''.md'' then Inr (read_markdown fs path strip ignore_blank)
      else if ext = ''.csv'' then read_csv fs path column strip ignore_blank
      else if ext = ''.docx'' then read_docx fs path strip ignore_blank
      else Inl (ValueError ''Unsupported file extension''))"

text \<open>\<open>f"{path}::{column or ''}"\<close>.\<close>

definition source_key :: "string \<Rightarrow> string option \<Rightarrow> string" where
  "source_key path column = path @ ''::'' @ (case column of None \<Rightarrow> [] | Some c \<Rightarrow> c)"

text \<open>
  \<open>_load_file_lines\<close>. \<open>reload\<close> is the part after the early return: read the file
  again and overwrite the entry of the key.
\<close>

definition load_file_lines ::
  "filesystem \<Rightarrow> composer_state \<Rightarrow> string \<Rightarrow> string option \<Rightarrow> bool \<Rightarrow> bool
     \<Rightarrow> error + (line_record list \<times> composer_state)" where
  "load_file_lines fs state path column strip ignore_blank =
     (let mtime = getmtime fs path;
          cache_key = source_key path column;
          reload =
            (case read_file_records fs path column strip ignore_blank of
               Inl e \<Rightarrow> Inl e
             | Inr records \<Rightarrow>
                 Inr (records,
                      state \<lparr> c_cache := (c_cache state)(cache_key \<mapsto>
                                 \<lparr> ce_mtime = mtime, ce_records = records, ce_strip = strip,
                                   ce_ignore_blank = ignore_blank \<rparr>) \<rparr>))
      in case c_cache state cache_key of
           None \<Rightarrow> reload
         | Some cached \<Rightarrow>
             if ce_mtime cached = mtime \<and> ce_strip cached = strip
                \<and> ce_ignore_blank cached = ignore_blank
             then Inr (ce_records cached, state)
             else reload)"

text \<open>
  The condition under which \<open>_load_file_lines\<close> returns early with the stored records:
  the key has an entry whose modification time and flags equal those of the request.
\<close>

definition cache_hit ::
  "filesystem \<Rightarrow> composer_state \<Rightarrow> string \<Rightarrow> string option \<Rightarrow> bool \<Rightarrow> bool \<Rightarrow> bool" where
  "cache_hit fs state path column strip ignore_blank =
     (case c_cache state (source_key path column) of
        None \<Rightarrow> False
      | Some cached \<Rightarrow>
          ce_mtime cached = getmtime fs path \<and> ce_strip cached = strip
        \<and> ce_ignore_blank cached = ignore_blank)"

text \<open>
  The number of lines, rows or paragraphs the reader of a file enumerates, before any is
  left out as blank.
\<close>

definition source_rows :: "filesystem \<Rightarrow> string \<Rightarrow> string option \<Rightarrow> nat" where
  "source_rows fs path column =
     (let ext = py_lower (snd (splitext fs path)) in
      if ext = ''.txt'' \<or> ext = ''.log'' \<or> ext = ''.md''
        then length (file_iter_lines (read_content fs path))
      else if ext = ''.csv'' then
        (case column of
           Some col \<Rightarrow> if col \<noteq> [] then length (snd (csv_DictReader fs path))
                       else length (csv_reader fs path)
         | None \<Rightarrow> length (csv_reader fs path))
      else length (docx_paragraphs fs path))"

text \<open>
  The text each reader computes for the lines, rows or paragraphs it enumerates, in read
  order, before any is left out as blank.
\<close>

definition source_texts :: "filesystem \<Rightarrow> string \<Rightarrow> string option \<Rightarrow> bool \<Rightarrow> string list" where
  "source_texts fs path column strip =
     (let ext = py_lower (snd (splitext fs path));
          stripped = (\<lambda>t. if strip then py_strip t else t);
          joined = (\<lambda>row. stripped (py_join '', '' (map stripped row)))
      in if ext = ''.txt'' \<or> ext = ''.log'' \<or> ext = ''.md''
           then map (\<lambda>line. stripped (py_rstrip_nl line)) (file_iter_lines (read_content fs path))
         else if ext = ''.csv'' then
           (case column of
              Some col \<Rightarrow>
                if col \<noteq> [] then map (\<lambda>row. stripped (row_get row col)) (snd (csv_DictReader fs path))
                else map joined (csv_reader fs path)
            | None \<Rightarrow> map joined (csv_reader fs path))
         else map stripped (docx_paragraphs fs path))"

text \<open>
  The shape the four reader loops share: the texts are numbered from \<open>idx\<close> on, and an
  empty text is left out, its number with it, when \<open>ignore_blank\<close> is on.
\<close>

fun enumerate_kept :: "bool \<Rightarrow> int \<Rightarrow> string list \<Rightarrow> line_record list" where
  "enumerate_kept ignore_blank idx [] = []"
| "enumerate_kept ignore_blank idx (t # ts) =
     (if ignore_blank \<and> t = [] then enumerate_kept ignore_blank (idx + 1) ts
      else LineRecord idx t # enumerate_kept ignore_blank (idx + 1) ts)"

text \<open>What a selection returns for the record at cursor \<open>c\<close>: \<open>records[c mod len(records)]\<close>.\<close>

definition record_at :: "line_record list \<Rightarrow> int \<Rightarrow> string \<times> int \<times> int" where
  "record_at records c =
     (let r = records ! nat (c mod int (length records))
      in (line_text r, line_index r, int (length records)))"

text \<open>\<open>self._positions.get(key, 0)\<close>.\<close>

definition positions_get :: "composer_state \<Rightarrow> string \<Rightarrow> int" where
  "positions_get state key = (case c_positions state key of None \<Rightarrow> 0 | Some p \<Rightarrow> p)"

definition select_line_from_file ::
  "filesystem \<Rightarrow> 'g random_module \<Rightarrow> composer_state \<Rightarrow> string \<Rightarrow> string option \<Rightarrow> string
     \<Rightarrow> bool \<Rightarrow> bool \<Rightarrow> 'g \<Rightarrow> error + ((string \<times> int \<times> int) \<times> composer_state \<times> 'g)" where
  "select_line_from_file fs rm state path0 column sel strip ignore_blank rng =
     (let path = expanduser fs path0 in
      if \<not> isfile fs path then Inl (FileNotFoundError path)
      else
        (case load_file_lines fs state path column strip ignore_blank of
           Inl e \<Rightarrow> Inl e
         | Inr (records, state1) \<Rightarrow>
             if records = [] then Inl (ValueError ''No usable lines found in file'')
             else
               let key = source_key path column;
                   (idx, state2, rng2) =
                     (if sel = ''SEQUENTIAL'' then
                        let position = positions_get state1 key
                        in (position mod int (length records),
                            state1 \<lparr> c_positions := (c_positions state1)(key \<mapsto> position + 1) \<rparr>,
                            rng)
                      else
                        let (r, rng') = randrange rm rng (int (length records))
                        in (r, state1, rng'))
               in (case py_index records idx of
                     Inl e \<Rightarrow> Inl e
                   | Inr record \<Rightarrow>
                       Inr ((line_text record, line_index record, int (length records)),
                            state2, rng2))))"

text \<open>One entry of the \<open>segments\<close> list and the document \<open>json.dumps\<close> serialises.\<close>

record segment =
  seg_file :: string
  seg_column :: "string option"
  seg_line_index :: int
  seg_total_lines :: int
  seg_text :: string

record report =
  rep_mode :: string
  rep_selection_mode :: string
  rep_prompt :: string
  rep_segments :: "segment list"

text \<open>
  The instance a raising \<open>_select_line_from_file\<close> leaves behind. Nothing is written
  before \<open>_load_file_lines\<close> returns, and a raise inside it comes before its write to the
  cache; a raise after it (no usable lines, an index out of range) finds the cache as
  \<open>_load_file_lines\<close> left it. The cursor is written only on the path that cannot raise.
\<close>

definition select_failure_state ::
  "filesystem \<Rightarrow> composer_state \<Rightarrow> string \<Rightarrow> string option \<Rightarrow> bool \<Rightarrow> bool \<Rightarrow> composer_state" where
  "select_failure_state fs state path0 column strip ignore_blank =
     (let path = expanduser fs path0 in
      if \<not> isfile fs path then state
      else (case load_file_lines fs state path column strip ignore_blank of
              Inl e \<Rightarrow> state
            | Inr (records, state1) \<Rightarrow> state1))"

text \<open>
  The loop of \<open>compose\<close> over \<open>enumerate(files)\<close>: the state, the generator, \<open>parts\<close> and
  \<open>segments\<close> are carried through; \<open>idx\<close> is the number of the first entry left. The
  result is what the loop produced, or the error raised, and in both cases the instance
  as it is then.
\<close>

fun compose_loop ::
  "filesystem \<Rightarrow> 'g random_module \<Rightarrow> compose_args \<Rightarrow> string list \<Rightarrow> nat \<Rightarrow> string list
     \<Rightarrow> composer_state \<Rightarrow> 'g \<Rightarrow> string list \<Rightarrow> segment list
     \<Rightarrow> (error + ('g \<times> string list \<times> segment list)) \<times> composer_state" where
  "compose_loop fs rm args inserts idx [] state rng parts segments =
     (Inr (rng, parts, segments), state)"
| "compose_loop fs rm args inserts idx (file_entry # files) state rng parts segments =
     (let (path, column) = split_path_and_column file_entry (csv_column args) in
      case select_line_from_file fs rm state path column (selection_mode args)
             (strip_whitespace args) (ignore_blank_lines args) rng of
        Inl e \<Rightarrow>
          (Inl e, select_failure_state fs state path column (strip_whitespace args)
                    (ignore_blank_lines args))
      | Inr ((text1, index1, total1), state', rng') \<Rightarrow>
          let parts1 = (if idx < length inserts \<and> inserts ! idx \<noteq> []
                        then parts @ [inserts ! idx] else parts);
              parts2 = parts1 @ [text1];
              segments' = segments @
                [\<lparr> seg_file = path, seg_column = column, seg_line_index = index1,
                   seg_total_lines = total1, seg_text = text1 \<rparr>]
          in compose_loop fs rm args inserts (Suc idx) files state' rng' parts2 segments')"

text \<open>
  \<open>compose\<close>: what the call returns, or the error it raises, and the instance it leaves
  in both cases.
\<close>

definition compose ::
  "filesystem \<Rightarrow> 'g random_module \<Rightarrow> 'g \<Rightarrow> composer_state \<Rightarrow> compose_args
     \<Rightarrow> (error + (string \<times> report \<times> int)) \<times> composer_state" where
  "compose fs rm os_rng state0 args =
     (let state1 = (if reset args then composer_reset_state state0 else state0) in
      case gather_files fs args of
        Inl e \<Rightarrow> (Inl e, state1)
      | Inr files \<Rightarrow>
          if files = [] then (Inl (ValueError ''No files found for the selected mode.''), state1)
          else
            let inserts = parse_custom_inserts (custom_inserts args);
                (rng, state2) = make_rng rm os_rng state1 (random_seed args);
                parts0 = (if prefix_text args \<noteq> [] then [prefix_text args] else [])
            in case compose_loop fs rm args inserts 0 files state2 rng parts0 [] of
                 (Inl e, state3) \<Rightarrow> (Inl e, state3)
               | (Inr (rng3, parts1, segments), state3) \<Rightarrow>
                   (Inr (let parts2 = (if length inserts > length files
                                          \<and> inserts ! length files \<noteq> []
                                       then parts1 @ [inserts ! length files] else parts1);
                             parts3 = (if suffix_text args \<noteq> [] then parts2 @ [suffix_text args]
                                       else parts2);
                             prompt = (if auto_space args
                                       then py_join '' '' (filter (\<lambda>part. part \<noteq> []) parts3)
                                       else concat (filter (\<lambda>part. part \<noteq> []) parts3))
                         in (prompt,
                             \<lparr> rep_mode = mode args, rep_selection_mode = selection_mode args,
                               rep_prompt = prompt, rep_segments = segments \<rparr>,
                             int (length files))),
                    state3))"

text \<open>
  Consecutive calls of \<open>compose\<close> on one instance, each with the generator the operating
  system would seed for it and its arguments: what every call returned or raised, in
  call order, and the final state. A call that raises leaves the instance to the next.
\<close>

fun compose_calls ::
  "filesystem \<Rightarrow> 'g random_module \<Rightarrow> composer_state \<Rightarrow> ('g \<times> compose_args) list
     \<Rightarrow> (error + (string \<times> report \<times> int)) list \<times> composer_state" where
  "compose_calls fs rm state [] = ([], state)"
| "compose_calls fs rm state ((os_rng, args) # calls) =
     (let (result, state') = compose fs rm os_rng state args;
          (results, state'') = compose_calls fs rm state' calls
      in (result # results, state''))"

text \<open>
  Random selection as the specification words it: every source's record is drawn from
  the source's records with the call's generator, one draw after the other.
  \<open>loaded_lists\<close> gives the record lists the sources of a call load, in order, from the
  cache or the files; \<open>random_picks\<close> draws an index into each with \<open>randrange\<close>, handing
  the generator on, and takes the record there.
\<close>

fun loaded_lists ::
  "filesystem \<Rightarrow> bool \<Rightarrow> bool \<Rightarrow> composer_state \<Rightarrow> (string \<times> string option) list
     \<Rightarrow> line_record list list" where
  "loaded_lists fs strip ignore_blank state [] = []"
| "loaded_lists fs strip ignore_blank state ((path, column) # sources) =
     (case load_file_lines fs state (expanduser fs path) column strip ignore_blank of
        Inl e \<Rightarrow> []
      | Inr (records, state') \<Rightarrow>
          records # loaded_lists fs strip ignore_blank state' sources)"

fun random_picks ::
  "'g random_module \<Rightarrow> 'g \<Rightarrow> line_record list list \<Rightarrow> (error + line_record) list" where
  "random_picks rm rng [] = []"
| "random_picks rm rng (records # rest) =
     py_index records (fst (randrange rm rng (int (length records))))
       # random_picks rm (snd (randrange rm rng (int (length records)))) rest"

text \<open>
  Consecutive selections from one source in sequential mode: the selections in call order
  and the final state, or the first error.
\<close>

fun select_calls ::
  "nat \<Rightarrow> filesystem \<Rightarrow> 'g random_module \<Rightarrow> composer_state \<Rightarrow> string \<Rightarrow> string option
     \<Rightarrow> bool \<Rightarrow> bool \<Rightarrow> 'g \<Rightarrow> error + ((string \<times> int \<times> int) list \<times> composer_state)" where
  "select_calls 0 fs rm state path column strip ignore_blank rng = Inr ([], state)"
| "select_calls (Suc n) fs rm state path column strip ignore_blank rng =
     (case select_line_from_file fs rm state path column ''SEQUENTIAL'' strip ignore_blank rng of
        Inl e \<Rightarrow> Inl e
      | Inr (out, state', rng') \<Rightarrow>
          (case select_calls n fs rm state' path column strip ignore_blank rng' of
             Inl e \<Rightarrow> Inl e
           | Inr (outs, state'') \<Rightarrow> Inr (out # outs, state'')))"

section \<open>A small file system and instance states for concrete runs\<close>

text \<open>
  One text file \<open>a.txt\<close> with the three lines \<open>a\<close>, \<open> b\<close> and \<open>c\<close>, last modified at
  time 1; no other file exists.
\<close>

definition demo_fs :: filesystem where
  "demo_fs =
     \<lparr> expanduser = (\<lambda>p. p),
       isfile = (\<lambda>p. p = ''a.txt''),
       isdir = (\<lambda>p. False),
       getmtime = (\<lambda>p. 1),
       splitext = (\<lambda>p. (take (length p - 4) p, drop (length p - 4) p)),
       path_join = (\<lambda>d f. d @ ''/'' @ f),
       glob = (\<lambda>p. []),
       read_content =
         (\<lambda>p. [CHR ''a'', CHR 0x0A, CHR '' '', CHR ''b'', CHR 0x0A, CHR ''c'', CHR 0x0A]),
       csv_reader = (\<lambda>p. []),
       csv_DictReader = (\<lambda>p. (None, [])),
       docx_installed = False,
       docx_paragraphs = (\<lambda>p. []) \<rparr>"

text \<open>
  The state of a sequencer on \<open>a.txt\<close> (no column, stripping on) with the given
  configuration, position, count and cached last output.
\<close>

definition demo_seq ::
  "int \<Rightarrow> int \<Rightarrow> int \<Rightarrow> bool \<Rightarrow> int \<Rightarrow> int \<Rightarrow> string \<Rightarrow> int \<Rightarrow> int \<Rightarrow> seq_state" where
  "demo_seq start_value step max_steps auto_reset next_index emitted_steps last_prompt
       last_line_index last_step_index =
     \<lparr> s_initialized = True, s_file_path = ''a.txt'', s_file_mtime = Some 1,
       s_csv_column = [], s_strip_whitespace = True, s_start_value = start_value,
       s_step = step, s_max_steps = max_steps, s_auto_reset = auto_reset,
       s_lines = [''a'', '' b'', ''c''], s_total_lines = 3, s_next_index = next_index,
       s_emitted_steps = emitted_steps, s_last_prompt = last_prompt,
       s_last_line_index = last_line_index, s_last_step_index = last_step_index \<rparr>"

text \<open>
  The same file system with \<open>a.txt\<close> holding an empty first line and the line \<open>b\<close>, and
  with \<open>a.txt\<close> rewritten to the single line \<open>x\<close>; the modification time is still 1.
\<close>

definition demo_fs_blank :: filesystem where
  "demo_fs_blank = demo_fs \<lparr> read_content := (\<lambda>p. [CHR 0x0A, CHR ''b'', CHR 0x0A]) \<rparr>"

definition demo_fs_edited :: filesystem where
  "demo_fs_edited = demo_fs \<lparr> read_content := (\<lambda>p. [CHR ''x'', CHR 0x0A]) \<rparr>"

text \<open>
  A toy generator: its state is an integer, the seed is the first state, a draw is the
  state modulo the bound and moves the state on by one.
\<close>

definition demo_rm :: "int random_module" where
  "demo_rm = \<lparr> Random = (\<lambda>seed. seed), randrange = (\<lambda>g n. (g mod n, g + 1)) \<rparr>"

text \<open>A second toy generator, whose draw is twice the state modulo the bound.\<close>

definition demo_rm_twice :: "int random_module" where
  "demo_rm_twice = \<lparr> Random = (\<lambda>seed. seed), randrange = (\<lambda>g n. ((2 * g) mod n, g + 1)) \<rparr>"

text \<open>
  A composer whose cache holds one entry, for \<open>a.txt\<close> without column, with the given
  records and flags, and whose cursor table and call counter are as given.
\<close>

definition demo_composer ::
  "line_record list \<Rightarrow> bool \<Rightarrow> bool \<Rightarrow> (string \<rightharpoonup> int) \<Rightarrow> int \<Rightarrow> composer_state" where
  "demo_composer records strip ignore_blank positions global_step =
     \<lparr> c_cache = [''a.txt::'' \<mapsto> \<lparr> ce_mtime = 1, ce_records = records, ce_strip = strip,
                                    ce_ignore_blank = ignore_blank \<rparr>],
       c_positions = positions, c_global_step = global_step \<rparr>"

definition demo_records :: "line_record list" where
  "demo_records = [LineRecord 1 ''a'', LineRecord 2 ''b'', LineRecord 3 ''c'']"

definition demo_records_raw :: "line_record list" where
  "demo_records_raw = [LineRecord 1 ''a'', LineRecord 2 '' b'', LineRecord 3 ''c'']"

text \<open>A call of \<open>compose\<close> in manual mode on \<open>a.txt\<close> alone, with the defaults otherwise.\<close>

definition demo_args :: "string \<Rightarrow> int \<Rightarrow> bool \<Rightarrow> compose_args" where
  "demo_args sel seed rs =
     \<lparr> mode = ''MANUAL'', selection_mode = sel, auto_space = True, strip_whitespace = True,
       ignore_blank_lines = True, random_seed = seed, manual_paths = ''a.txt'',
       manifest_path = [], directory_path = [], directory_glob = ''*.txt'', max_files = 16,
       custom_inserts = [], prefix_text = [], suffix_text = [], csv_column = [],
       reset = rs \<rparr>"

definition demo_output :: "string \<Rightarrow> string \<Rightarrow> int \<Rightarrow> string \<times> report \<times> int" where
  "demo_output sel text1 index1 =
     (text1,
      \<lparr> rep_mode = ''MANUAL'', rep_selection_mode = sel, rep_prompt = text1,
        rep_segments = [\<lparr> seg_file = ''a.txt'', seg_column = None, seg_line_index = index1,
                          seg_total_lines = 3, seg_text = text1 \<rparr>] \<rparr>,
      1)"

section \<open>Facts about the sequencer\<close>

lemma seq_should_reset_iff:
  "seq_should_reset st path m sv stp ms ar col sw rs \<longleftrightarrow>
     rs \<or> \<not> seq_matches st path m sv stp ms ar col sw"
  by (auto simp: seq_should_reset_def seq_matches_def)

lemma seq_reset_state_matches:
  "seq_reset_state fs st path m sv stp ms ar col sw = Inr st2 \<Longrightarrow>
     seq_matches st2 path m sv stp ms ar col sw"
  by (auto simp: seq_reset_state_def seq_matches_def split: sum.splits if_splits)



lemma seq_reset_state_ok:
  "load_lines fs path col = Inr ls \<Longrightarrow> ls \<noteq> [] \<Longrightarrow>
     \<exists>st2. seq_reset_state fs st path m sv stp ms ar col sw = Inr st2"
  by (simp add: seq_reset_state_def)

lemma seq_gate_matches:
  "seq_gate fs st fp sv stp ms ar rs col sw = Inr stg \<Longrightarrow>
     fp \<noteq> [] \<and> isfile fs (expanduser fs fp)
     \<and> seq_matches stg (expanduser fs fp) (getmtime fs (expanduser fs fp)) sv stp ms ar col sw"
  by (auto simp: seq_gate_def Let_def seq_should_reset_iff
           dest: seq_reset_state_matches split: if_splits)

lemma seq_gate_keep:
  "fp \<noteq> [] \<Longrightarrow> isfile fs (expanduser fs fp) \<Longrightarrow>
   seq_matches st (expanduser fs fp) (getmtime fs (expanduser fs fp)) sv stp ms ar col sw \<Longrightarrow>
   seq_gate fs st fp sv stp ms ar False col sw = Inr st"
  by (simp add: seq_gate_def Let_def seq_should_reset_iff)

lemma seq_emit_result:
  "seq_emit st ms sw = Inr ((p, idx, k, t, d), st') \<Longrightarrow>
     t = s_total_lines st \<and> t \<noteq> 0 \<and> idx = (s_next_index st - 1) mod t + 1
     \<and> k = s_emitted_steps st + 1 \<and> d = (0 \<le> ms \<and> ms \<le> k)
     \<and> st' = st \<lparr> s_emitted_steps := k, s_next_index := s_next_index st + s_step st,
                   s_last_prompt := p, s_last_line_index := idx, s_last_step_index := k \<rparr>"
  by (auto simp: seq_emit_def normalize_index_def Let_def split: sum.splits if_splits)

lemma seq_emit_matches:
  "seq_emit st ms' sw' = Inr (out, st') \<Longrightarrow>
     seq_matches st' path m sv stp ms ar col sw = seq_matches st path m sv stp ms ar col sw"
  by (cases out) (auto simp: seq_matches_def dest!: seq_emit_result)



lemma next_prompt_hold:
  assumes "fp \<noteq> []" and "isfile fs (expanduser fs fp)"
    and "seq_matches st (expanduser fs fp) (getmtime fs (expanduser fs fp)) sv stp ms False col sw"
    and "0 \<le> ms" and "ms \<le> s_emitted_steps st"
  shows "next_prompt fs st fp sv stp ms False False col sw =
           Inr ((s_last_prompt st, s_last_line_index st, s_last_step_index st,
                 s_total_lines st, True), st)"
proof -
  have "seq_gate fs st fp sv stp ms False False col sw = Inr st"
    using assms(1-3) by (rule seq_gate_keep)
  moreover have "\<not> s_auto_reset st"
    using assms(3) by (simp add: seq_matches_def)
  ultimately show ?thesis
    using assms(4,5) by (simp add: next_prompt_def)
qed

lemma seq_calls_hold:
  assumes "fp \<noteq> []" and "isfile fs (expanduser fs fp)"
    and "seq_matches st (expanduser fs fp) (getmtime fs (expanduser fs fp)) sv stp ms False col sw"
    and "0 \<le> ms" and "ms \<le> s_emitted_steps st"
  shows "seq_calls n fs st fp sv stp ms False col sw =
           Inr (replicate n (s_last_prompt st, s_last_line_index st, s_last_step_index st,
                             s_total_lines st, True), st)"
  by (induction n) (simp_all add: next_prompt_hold [OF assms])

lemma next_prompt_after:
  assumes "next_prompt fs st fp sv stp ms False rs col sw = Inr ((p, idx, k, t, d), st')"
  shows "fp \<noteq> [] \<and> isfile fs (expanduser fs fp)
       \<and> seq_matches st' (expanduser fs fp) (getmtime fs (expanduser fs fp)) sv stp ms False col sw
       \<and> s_last_prompt st' = p \<and> s_last_line_index st' = idx \<and> s_last_step_index st' = k
       \<and> s_total_lines st' = t \<and> d = (0 \<le> ms \<and> ms \<le> s_emitted_steps st')"
proof -
  obtain stg where g: "seq_gate fs st fp sv stp ms False rs col sw = Inr stg"
    using assms by (auto simp: next_prompt_def split: sum.splits)
  note m = seq_gate_matches [OF g]
  then have nar: "\<not> s_auto_reset stg" by (simp add: seq_matches_def)
  show ?thesis
  proof (cases "0 \<le> ms \<and> ms \<le> s_emitted_steps stg")
    case True
    with assms g nar have "st' = stg" and "p = s_last_prompt stg" and "idx = s_last_line_index stg"
      and "k = s_last_step_index stg" and "t = s_total_lines stg" and "d"
      by (auto simp: next_prompt_def)
    with m True show ?thesis by simp
  next
    case False
    with assms g have e: "seq_emit stg ms sw = Inr ((p, idx, k, t, d), st')"
      by (auto simp: next_prompt_def)
    from seq_emit_matches [OF e] m
    have "seq_matches st' (expanduser fs fp) (getmtime fs (expanduser fs fp)) sv stp ms False col sw"
      by simp
    moreover from seq_emit_result [OF e]
    have "s_last_prompt st' = p \<and> s_last_line_index st' = idx \<and> s_last_step_index st' = k
       \<and> s_total_lines st' = t \<and> d = (0 \<le> ms \<and> ms \<le> s_emitted_steps st')"
      by simp
    ultimately show ?thesis using m by simp
  qed
qed

lemma seq_inv_init: "seq_inv fs seq_init"
  by (simp add: seq_inv_def seq_init_def)

lemma seq_inv_reset:
  "seq_reset_state fs st path m sv stp ms ar col sw = Inr st2 \<Longrightarrow> seq_inv fs st2"
  by (auto simp: seq_reset_state_def seq_inv_def split: sum.splits if_splits)

lemma seq_inv_gate:
  "seq_inv fs st \<Longrightarrow> seq_gate fs st fp sv stp ms ar rs col sw = Inr stg \<Longrightarrow> seq_inv fs stg"
  by (auto simp: seq_gate_def Let_def dest: seq_inv_reset split: if_splits)

lemma seq_emit_frame:
  assumes "seq_emit st ms sw = Inr (out, st')"
  shows "s_initialized st' = s_initialized st \<and> s_file_path st' = s_file_path st
       \<and> s_csv_column st' = s_csv_column st \<and> s_lines st' = s_lines st
       \<and> s_total_lines st' = s_total_lines st \<and> s_max_steps st' = s_max_steps st
       \<and> s_auto_reset st' = s_auto_reset st
       \<and> s_emitted_steps st' = s_emitted_steps st + 1"
proof -
  obtain p idx k t d where out: "out = (p, idx, k, t, d)" by (cases out)
  from seq_emit_result [OF assms [unfolded out]] show ?thesis by simp
qed

lemma seq_inv_emit:
  assumes "seq_inv fs st" and "s_initialized st"
    and "\<not> (s_max_steps st = 0 \<and> \<not> s_auto_reset st)"
    and "seq_emit st ms sw = Inr (out, st')"
  shows "seq_inv fs st'"
proof -
  note f = seq_emit_frame [OF assms(4)]
  from assms(1,2) have "load_lines fs (s_file_path st) (s_csv_column st) = Inr (s_lines st)"
    and "s_lines st \<noteq> []" and "s_total_lines st = int (length (s_lines st))"
    and "0 \<le> s_emitted_steps st"
    by (simp_all add: seq_inv_def)
  with f assms(3) show ?thesis
    unfolding seq_inv_def by simp
qed

lemma next_prompt_cases [consumes 1, case_names hold reload emit]:
  assumes np: "next_prompt fs st fp sv stp ms ar rs col sw = Inr (out, st')"
  obtains
    (hold) stg where "seq_gate fs st fp sv stp ms ar rs col sw = Inr stg"
      and "0 \<le> ms" and "ms \<le> s_emitted_steps stg" and "\<not> s_auto_reset stg"
      and "st' = stg"
      and "out = (s_last_prompt stg, s_last_line_index stg, s_last_step_index stg,
                  s_total_lines stg, True)"
  | (reload) stg st2 where "seq_gate fs st fp sv stp ms ar rs col sw = Inr stg"
      and "0 \<le> ms" and "ms \<le> s_emitted_steps stg" and "s_auto_reset stg"
      and "seq_reset_state fs stg (expanduser fs fp) (getmtime fs (expanduser fs fp))
             sv stp ms ar col sw = Inr st2"
      and "seq_emit st2 ms sw = Inr (out, st')"
  | (emit) stg where "seq_gate fs st fp sv stp ms ar rs col sw = Inr stg"
      and "\<not> (0 \<le> ms \<and> ms \<le> s_emitted_steps stg)"
      and "seq_emit stg ms sw = Inr (out, st')"
proof (cases "seq_gate fs st fp sv stp ms ar rs col sw")
  case (Inl e)
  with np show ?thesis by (simp add: next_prompt_def)
next
  case g: (Inr stg)
  show ?thesis
  proof (cases "0 \<le> ms \<and> ms \<le> s_emitted_steps stg")
    case False
    with np g have "seq_emit stg ms sw = Inr (out, st')" by (simp add: next_prompt_def)
    with g False show ?thesis by (rule emit)
  next
    case ex: True
    show ?thesis
    proof (cases "s_auto_reset stg")
      case False
      with g ex have "next_prompt fs st fp sv stp ms ar rs col sw =
          Inr ((s_last_prompt stg, s_last_line_index stg, s_last_step_index stg,
                  s_total_lines stg, True), stg)"
        by (simp add: next_prompt_def)
      with np have "st' = stg"
        and "out = (s_last_prompt stg, s_last_line_index stg, s_last_step_index stg,
                  s_total_lines stg, True)"
        by auto
      with g ex False show ?thesis by (intro hold) simp_all
    next
      case a: True
      show ?thesis
      proof (cases "seq_reset_state fs stg (expanduser fs fp) (getmtime fs (expanduser fs fp))
             sv stp ms ar col sw")
        case (Inl e)
        with np g ex a show ?thesis by (simp add: next_prompt_def)
      next
        case r: (Inr st2)
        with np g ex a have "seq_emit st2 ms sw = Inr (out, st')" by (simp add: next_prompt_def)
        with g ex a r show ?thesis by (intro reload) simp_all
      qed
    qed
  qed
qed

lemma seq_inv_next_prompt:
  assumes "seq_inv fs st"
    and "next_prompt fs st fp sv stp ms ar rs col sw = Inr (out, st')"
  shows "seq_inv fs st'"
  using assms(2)
proof (cases rule: next_prompt_cases)
  case (hold stg)
  with seq_inv_gate [OF assms(1) hold(1)] show ?thesis by simp
next
  case (reload stg st2)
  from seq_reset_state_matches [OF reload(5)] seq_gate_matches [OF reload(1)] reload(4)
  have "s_initialized st2" and "\<not> (s_max_steps st2 = 0 \<and> \<not> s_auto_reset st2)"
    by (simp_all add: seq_matches_def)
  with seq_inv_reset [OF reload(5)] show ?thesis using reload(6) by (rule seq_inv_emit)
next
  case (emit stg)
  note ig = seq_inv_gate [OF assms(1) emit(1)]
  note m = seq_gate_matches [OF emit(1)]
  from m have i: "s_initialized stg" by (simp add: seq_matches_def)
  with ig have "0 \<le> s_emitted_steps stg" by (simp add: seq_inv_def)
  with emit(2) m have "\<not> (s_max_steps stg = 0 \<and> \<not> s_auto_reset stg)"
    by (auto simp: seq_matches_def)
  with ig i show ?thesis using emit(3) by (rule seq_inv_emit)
qed

lemma seq_reachable_inv: "seq_reachable fs st \<Longrightarrow> seq_inv fs st"
  by (induction rule: seq_reachable.induct) (auto intro: seq_inv_init seq_inv_next_prompt)

subsection \<open>Concrete runs on the small file system\<close>

lemma demo_fs_path:
  "expanduser demo_fs p = p" "isfile demo_fs p = (p = ''a.txt'')" "getmtime demo_fs p = 1"
  by (simp_all add: demo_fs_def)

lemma demo_fs_text:
  "py_lower (snd (splitext demo_fs ''a.txt'')) = ''.txt''"
  "py_splitlines (read_content demo_fs p) = [''a'', '' b'', ''c'']"
  by (simp_all add: demo_fs_def py_lower_def py_splitlines_def py_linebreak_def)

lemma demo_strip: "py_strip ''a'' = ''a''" "py_strip '' b'' = ''b''" "py_strip ''c'' = ''c''"
  by (simp_all add: py_strip_def py_lstrip_def py_rstrip_def py_isspace_def)

lemma demo_load_lines: "load_lines demo_fs ''a.txt'' [] = Inr [''a'', '' b'', ''c'']"
  by (simp add: load_lines_def demo_fs_text seq_read_txt_def)

lemma demo_reset:
  "seq_reset_state demo_fs st ''a.txt'' 1 sv stp ms ar [] True =
     Inr (demo_seq sv stp ms ar sv 0 [] 0 0)"
  by (cases st) (simp add: seq_reset_state_def demo_load_lines demo_seq_def)

lemma demo_gate_fresh:
  "seq_gate demo_fs seq_init ''a.txt'' sv stp ms ar rs [] True =
     Inr (demo_seq sv stp ms ar sv 0 [] 0 0)"
  by (simp add: seq_gate_def seq_should_reset_def demo_fs_path Let_def demo_reset)
    (simp add: seq_init_def)

lemma demo_gate_keep:
  "seq_gate demo_fs (demo_seq sv stp ms ar n e lp li ls) ''a.txt'' sv stp ms ar False [] True =
     Inr (demo_seq sv stp ms ar n e lp li ls)"
  by (simp add: seq_gate_def seq_should_reset_def demo_fs_path Let_def demo_seq_def)


lemma demo_emit_b:
  "seq_emit (demo_seq 1 1 2 ar 2 1 ''a'' 1 1) 2 True =
     Inr ((''b'', 2, 2, 3, True), demo_seq 1 1 2 ar 3 2 ''b'' 2 2)"
  by (simp add: seq_emit_def normalize_index_def py_index_def demo_seq_def demo_strip
        Let_def)


lemma demo_seq_sel:
  "s_emitted_steps (demo_seq sv stp ms ar n e lp li ls) = e"
  "s_auto_reset (demo_seq sv stp ms ar n e lp li ls) = ar"
  "s_next_index (demo_seq sv stp ms ar n e lp li ls) = n"
  "s_step (demo_seq sv stp ms ar n e lp li ls) = stp"
  by (simp_all add: demo_seq_def)

section \<open>Facts about the composer\<close>

lemma load_file_lines_hit:
  "cache_hit fs st path col s ib \<Longrightarrow>
     \<exists>e. c_cache st (source_key path col) = Some e
        \<and> load_file_lines fs st path col s ib = Inr (ce_records e, st)"
  by (auto simp: cache_hit_def load_file_lines_def Let_def split: option.splits)

lemma load_file_lines_miss:
  "\<not> cache_hit fs st path col s ib \<Longrightarrow>
     load_file_lines fs st path col s ib =
       (case read_file_records fs path col s ib of
          Inl e \<Rightarrow> Inl e
        | Inr records \<Rightarrow>
            Inr (records,
                 st \<lparr> c_cache := (c_cache st)(source_key path col \<mapsto>
                        \<lparr> ce_mtime = getmtime fs path, ce_records = records, ce_strip = s,
                          ce_ignore_blank = ib \<rparr>) \<rparr>))"
  by (auto simp: cache_hit_def load_file_lines_def Let_def split: option.splits)

lemma load_file_lines_result:
  assumes "load_file_lines fs st path col s ib = Inr (recs, st1)"
  shows "c_cache st1 (source_key path col) =
           Some \<lparr> ce_mtime = getmtime fs path, ce_records = recs, ce_strip = s,
                  ce_ignore_blank = ib \<rparr>
       \<and> c_positions st1 = c_positions st \<and> c_global_step st1 = c_global_step st
       \<and> (\<forall>k. k \<noteq> source_key path col \<longrightarrow> c_cache st1 k = c_cache st k)"
proof (cases "cache_hit fs st path col s ib")
  case True
  from load_file_lines_hit [OF True] assms True show ?thesis
    by (auto simp: cache_hit_def)
next
  case False
  from load_file_lines_miss [OF False] assms show ?thesis
    by (auto split: sum.splits)
qed

lemma load_file_lines_again:
  assumes "load_file_lines fs st path col s ib = Inr (recs, st1)"
    and "c_cache st2 = c_cache st1"
    and "getmtime fs' path = getmtime fs path"
  shows "load_file_lines fs' st2 path col s ib = Inr (recs, st2)"
proof -
  from load_file_lines_result [OF assms(1)] assms(2,3)
  have "cache_hit fs' st2 path col s ib"
    and "c_cache st2 (source_key path col) =
           Some \<lparr> ce_mtime = getmtime fs path, ce_records = recs, ce_strip = s,
                  ce_ignore_blank = ib \<rparr>"
    by (simp_all add: cache_hit_def)
  with load_file_lines_hit [of fs' st2 path col s ib] show ?thesis by auto
qed

lemma select_sequential:
  assumes "isfile fs (expanduser fs path)"
    and "load_file_lines fs st (expanduser fs path) col s ib = Inr (records, st1)"
    and "records \<noteq> []"
  shows "select_line_from_file fs rm st path col ''SEQUENTIAL'' s ib rng =
           Inr (record_at records (positions_get st (source_key (expanduser fs path) col)),
                st1 \<lparr> c_positions := (c_positions st)(source_key (expanduser fs path) col \<mapsto>
                          positions_get st (source_key (expanduser fs path) col) + 1) \<rparr>,
                rng)"
proof -
  let ?key = "source_key (expanduser fs path) col"
  let ?pos = "positions_get st ?key"
  have p: "c_positions st1 = c_positions st"
    using load_file_lines_result [OF assms(2)] by simp
  then have pg: "positions_get st1 ?key = ?pos" by (simp add: positions_get_def)
  have len: "0 < int (length records)" using assms(3) by simp
  have "0 \<le> ?pos mod int (length records)" and "?pos mod int (length records) < int (length records)"
    using len by simp_all
  then have "py_index records (?pos mod int (length records)) =
          Inr (records ! nat (?pos mod int (length records)))"
    by (simp add: py_index_def)
  then show ?thesis
    using assms p pg by (simp add: select_line_from_file_def Let_def record_at_def)
qed


lemma select_calls_sequential:
  assumes "isfile fs (expanduser fs path)"
    and "load_file_lines fs st (expanduser fs path) col s ib = Inr (records, st1)"
    and "records \<noteq> []"
  shows "select_calls n fs rm st path col s ib rng =
           Inr (map (\<lambda>i. record_at records
                            (positions_get st (source_key (expanduser fs path) col) + int i))
                  [0..<n],
                if n = 0 then st
                else st1 \<lparr> c_positions := (c_positions st)(source_key (expanduser fs path) col \<mapsto>
                       positions_get st (source_key (expanduser fs path) col) + int n) \<rparr>)"
  using assms(2)
proof (induction n arbitrary: st st1)
  case 0
  show ?case by simp
next
  case (Suc n)
  let ?key = "source_key (expanduser fs path) col"
  let ?pos = "positions_get st ?key"
  let ?sta = "st1 \<lparr> c_positions := (c_positions st)(?key \<mapsto> ?pos + 1) \<rparr>"
  note sel = select_sequential [OF assms(1) Suc.prems assms(3), of rm rng]
  have la: "load_file_lines fs ?sta (expanduser fs path) col s ib = Inr (records, ?sta)"
    using Suc.prems by (rule load_file_lines_again) simp_all
  have pa: "positions_get ?sta ?key = ?pos + 1" by (simp add: positions_get_def)
  note ih = Suc.IH [OF la, unfolded pa]
  have m: "map (\<lambda>i. record_at records (?pos + int i)) [0..<Suc n] =
        record_at records ?pos # map (\<lambda>i. record_at records (?pos + 1 + int i)) [0..<n]"
    by (simp add: map_upt_Suc add.assoc del: upt_Suc)
  show ?case
    unfolding m using sel ih by (cases n) (simp_all add: add.assoc)
qed

lemma text_records_index:
  "r \<in> set (text_records s ib idx xs) \<Longrightarrow>
     idx \<le> line_index r \<and> line_index r < idx + int (length xs)"
  by (induction xs arbitrary: idx) (fastforce simp: Let_def split: if_splits)+

lemma text_records_sorted: "sorted_wrt (<) (map line_index (text_records s ib idx xs))"
  by (induction xs arbitrary: idx) (fastforce simp: Let_def dest: text_records_index)+

lemma text_records_all:
  "map line_index (text_records s False idx xs) = map (\<lambda>i. idx + int i) [0..<length xs]"
  by (induction xs arbitrary: idx)
    (simp_all add: Let_def map_upt_Suc add.assoc del: upt_Suc)

lemma csv_dict_records_index:
  "r \<in> set (csv_dict_records c s ib idx xs) \<Longrightarrow>
     idx \<le> line_index r \<and> line_index r < idx + int (length xs)"
  by (induction xs arbitrary: idx) (fastforce simp: Let_def split: if_splits)+

lemma csv_dict_records_sorted:
  "sorted_wrt (<) (map line_index (csv_dict_records c s ib idx xs))"
  by (induction xs arbitrary: idx) (fastforce simp: Let_def dest: csv_dict_records_index)+

lemma csv_dict_records_all:
  "map line_index (csv_dict_records c s False idx xs) = map (\<lambda>i. idx + int i) [0..<length xs]"
  by (induction xs arbitrary: idx)
    (simp_all add: Let_def map_upt_Suc add.assoc del: upt_Suc)

lemma csv_list_records_index:
  "r \<in> set (csv_list_records s ib idx xs) \<Longrightarrow>
     idx \<le> line_index r \<and> line_index r < idx + int (length xs)"
  by (induction xs arbitrary: idx) (fastforce simp: Let_def split: if_splits)+

lemma csv_list_records_sorted:
  "sorted_wrt (<) (map line_index (csv_list_records s ib idx xs))"
  by (induction xs arbitrary: idx) (fastforce simp: Let_def dest: csv_list_records_index)+

lemma csv_list_records_all:
  "map line_index (csv_list_records s False idx xs) = map (\<lambda>i. idx + int i) [0..<length xs]"
  by (induction xs arbitrary: idx)
    (simp_all add: Let_def map_upt_Suc add.assoc del: upt_Suc)

lemma docx_records_index:
  "r \<in> set (docx_records s ib idx xs) \<Longrightarrow>
     idx \<le> line_index r \<and> line_index r < idx + int (length xs)"
  by (induction xs arbitrary: idx) (fastforce simp: Let_def split: if_splits)+

lemma docx_records_sorted:
  "sorted_wrt (<) (map line_index (docx_records s ib idx xs))"
  by (induction xs arbitrary: idx) (fastforce simp: Let_def dest: docx_records_index)+

lemma docx_records_all:
  "map line_index (docx_records s False idx xs) = map (\<lambda>i. idx + int i) [0..<length xs]"
  by (induction xs arbitrary: idx)
    (simp_all add: Let_def map_upt_Suc add.assoc del: upt_Suc)

lemma read_file_records_index:
  assumes "read_file_records fs path col s ib = Inr recs"
  shows "(\<forall>r \<in> set recs. 1 \<le> line_index r \<and> line_index r \<le> int (source_rows fs path col))
       \<and> sorted_wrt (<) (map line_index recs)
       \<and> (\<not> ib \<longrightarrow> map line_index recs = map (\<lambda>i. 1 + int i) [0..<source_rows fs path col])"
proof -
  let ?ext = "py_lower (snd (splitext fs path))"
  let ?P = "\<lambda>n recs. (\<forall>r \<in> set recs. 1 \<le> line_index r \<and> line_index r \<le> int n)
       \<and> sorted_wrt (<) (map line_index recs)
       \<and> (\<not> ib \<longrightarrow> map line_index recs = map (\<lambda>i. 1 + int i) [0..<n])"
  have t: "?P (length xs) (text_records s ib 1 xs)" for xs
    using text_records_index [of _ s ib 1 xs] text_records_sorted [of s ib 1 xs]
      text_records_all [of s 1 xs] by (cases ib) fastforce+
  have d: "?P (length xs) (csv_dict_records c s ib 1 xs)" for c xs
    using csv_dict_records_index [of _ c s ib 1 xs] csv_dict_records_sorted [of c s ib 1 xs]
      csv_dict_records_all [of c s 1 xs] by (cases ib) fastforce+
  have l: "?P (length xs) (csv_list_records s ib 1 xs)" for xs
    using csv_list_records_index [of _ s ib 1 xs] csv_list_records_sorted [of s ib 1 xs]
      csv_list_records_all [of s 1 xs] by (cases ib) fastforce+
  have p: "?P (length xs) (docx_records s ib 1 xs)" for xs
    using docx_records_index [of _ s ib 1 xs] docx_records_sorted [of s ib 1 xs]
      docx_records_all [of s 1 xs] by (cases ib) fastforce+
  consider (plain) "?ext = ''.txt'' \<or> ?ext = ''.log'' \<or> ?ext = ''.md''"
    | (csv) "?ext = ''.csv''" | (docx) "?ext = ''.docx''"
    | (other) "?ext \<noteq> ''.txt''" "?ext \<noteq> ''.log''" "?ext \<noteq> ''.md''" "?ext \<noteq> ''.csv''"
        "?ext \<noteq> ''.docx''"
    by blast
  then show ?thesis
  proof cases
    case plain
    then have "recs = text_records s ib 1 (file_iter_lines (read_content fs path))"
      and "source_rows fs path col = length (file_iter_lines (read_content fs path))"
      using assms
      by (auto simp: read_file_records_def source_rows_def read_markdown_def read_text_file_def
            Let_def split: if_splits)
    with t show ?thesis by simp
  next
    case csv
    show ?thesis
    proof (cases "\<exists>c. col = Some c \<and> c \<noteq> []")
      case True
      then obtain c where c: "col = Some c" "c \<noteq> []" by blast
      with csv assms have "recs = csv_dict_records c s ib 1 (snd (csv_DictReader fs path))"
        and "source_rows fs path col = length (snd (csv_DictReader fs path))"
        by (auto simp: read_file_records_def source_rows_def read_csv_def Let_def
              split: if_splits prod.splits option.splits)
      with d show ?thesis by simp
    next
      case False
      with csv assms have "recs = csv_list_records s ib 1 (csv_reader fs path)"
        and "source_rows fs path col = length (csv_reader fs path)"
        by (auto simp: read_file_records_def source_rows_def read_csv_def Let_def
              split: if_splits option.splits)
      with l show ?thesis by simp
    qed
  next
    case docx
    with assms have "recs = docx_records s ib 1 (docx_paragraphs fs path)"
      and "source_rows fs path col = length (docx_paragraphs fs path)"
      by (auto simp: read_file_records_def source_rows_def read_docx_def Let_def
            split: if_splits)
    with p show ?thesis by simp
  next
    case other
    with assms show ?thesis by (simp add: read_file_records_def Let_def)
  qed
qed

lemma select_line_from_file_step:
  "select_line_from_file fs rm st path col sel s ib rng = Inr (out, st', rng') \<Longrightarrow>
     c_global_step st' = c_global_step st"
  by (auto simp: select_line_from_file_def Let_def split: if_splits sum.splits prod.splits
        dest!: load_file_lines_result)

lemma select_failure_state_step:
  "c_global_step (select_failure_state fs st path col s ib) = c_global_step st"
  by (auto simp: select_failure_state_def Let_def split: sum.splits
        dest!: load_file_lines_result)

lemma compose_loop_step:
  "c_global_step (snd (compose_loop fs rm args ins idx files st rng parts segs)) =
     c_global_step st"
proof (induction files arbitrary: idx st rng parts segs)
  case Nil
  show ?case by simp
next
  case (Cons f files)
  show ?case
    by (auto simp: Let_def Cons.IH select_failure_state_step
          split: prod.splits sum.splits dest!: select_line_from_file_step)
qed

lemma snd_loop_result:
  "snd (case x of (Inl e, s) \<Rightarrow> (Inl e, s) | (Inr (r, p, sg), s) \<Rightarrow> (f r p sg, s)) = snd x"
  by (auto split: prod.splits sum.splits)

lemma compose_step:
  "c_global_step (snd (compose fs rm g st args)) =
     (if reset args then 0 else c_global_step st)
     + (case gather_files fs args of Inl e \<Rightarrow> 0 | Inr files \<Rightarrow> if files = [] then 0 else 1)"
  by (cases "gather_files fs args")
    (simp_all add: compose_def make_rng_def composer_reset_state_def Let_def snd_loop_result
       compose_loop_step)

lemma make_rng_seeded:
  "0 \<le> seed \<Longrightarrow> make_rng rm g1 st seed = make_rng rm g2 st seed"
  by (simp add: make_rng_def Let_def)

lemma compose_seeded:
  assumes "0 \<le> random_seed args"
  shows "compose fs rm g1 st args = compose fs rm g2 st args"
  unfolding compose_def make_rng_seeded [OF assms, of rm g1 _ g2] by (rule refl)

lemma compose_calls_seeded:
  assumes "map snd calls1 = map snd calls2"
    and "\<forall>a \<in> set (map snd calls1). 0 \<le> random_seed a"
  shows "compose_calls fs rm st calls1 = compose_calls fs rm st calls2"
  using assms
proof (induction calls1 arbitrary: calls2 st)
  case Nil
  then show ?case by simp
next
  case (Cons c calls1)
  obtain g1 a where c: "c = (g1, a)" by (cases c)
  from Cons.prems(1) c obtain g2 rest where c2: "calls2 = (g2, a) # rest"
    and r: "map snd calls1 = map snd rest"
    by (cases calls2) auto
  from Cons.prems(2) c have s: "0 \<le> random_seed a"
    and s': "\<forall>a \<in> set (map snd calls1). 0 \<le> random_seed a" by simp_all
  have "compose fs rm g1 st a = compose fs rm g2 st a" using s by (rule compose_seeded)
  moreover have "compose_calls fs rm st' calls1 = compose_calls fs rm st' rest" for st'
    using r s' by (rule Cons.IH)
  ultimately show ?case by (simp add: c c2 split: prod.splits)
qed

lemma compose_loop_reset_flag:
  "compose_loop fs rm (args \<lparr> reset := b \<rparr>) ins idx files st rng parts segs =
   compose_loop fs rm args ins idx files st rng parts segs"
  by (induction files arbitrary: idx st rng parts segs)
    (simp_all add: Let_def split: prod.splits sum.splits)

lemma gather_files_reset_flag:
  "gather_files fs (args \<lparr> reset := b \<rparr>) = gather_files fs args"
  by (simp add: gather_files_def)

subsection \<open>Random selection\<close>

lemma select_random:
  assumes "select_line_from_file fs rm st path col sel s ib g = Inr ((t, i, n), st', g')"
    and "sel \<noteq> ''SEQUENTIAL''"
  shows "\<exists>records. load_file_lines fs st (expanduser fs path) col s ib = Inr (records, st')
           \<and> n = int (length records)
           \<and> py_index records (fst (randrange rm g (int (length records)))) =
               Inr (LineRecord i t)
           \<and> g' = snd (randrange rm g (int (length records)))"
  using assms
  by (auto simp: select_line_from_file_def Let_def
        split: if_splits sum.splits prod.splits)

lemma compose_loop_random:
  assumes "compose_loop fs rm args ins idx files st g parts segs = (Inr (g', parts', segs'), st')"
    and "selection_mode args \<noteq> ''SEQUENTIAL''"
  shows "\<exists>new. segs' = segs @ new
           \<and> map (\<lambda>sg. Inr (LineRecord (seg_line_index sg) (seg_text sg))) new =
               random_picks rm g
                 (loaded_lists fs (strip_whitespace args) (ignore_blank_lines args) st
                    (map (\<lambda>f. split_path_and_column f (csv_column args)) files))
           \<and> map seg_total_lines new =
               map (\<lambda>l. int (length l))
                 (loaded_lists fs (strip_whitespace args) (ignore_blank_lines args) st
                    (map (\<lambda>f. split_path_and_column f (csv_column args)) files))
           \<and> map (\<lambda>sg. (seg_file sg, seg_column sg)) new =
               map (\<lambda>f. split_path_and_column f (csv_column args)) files"
  using assms(1)
proof (induction files arbitrary: idx st g parts segs)
  case Nil
  then show ?case by simp
next
  case (Cons f files)
  obtain path col where sp: "split_path_and_column f (csv_column args) = (path, col)"
    by (cases "split_path_and_column f (csv_column args)")
  from Cons.prems sp obtain t i n st1 g1
    where sel: "select_line_from_file fs rm st path col (selection_mode args)
             (strip_whitespace args) (ignore_blank_lines args) g = Inr ((t, i, n), st1, g1)"
    by (auto simp: Let_def split: sum.splits prod.splits)
  let ?sg = "\<lparr> seg_file = path, seg_column = col, seg_line_index = i,
                  seg_total_lines = n, seg_text = t \<rparr>"
  from Cons.prems sp sel obtain parts2
    where rest: "compose_loop fs rm args ins (Suc idx) files st1 g1 parts2 (segs @ [?sg]) =
             (Inr (g', parts', segs'), st')"
    by (auto simp: Let_def)
  from select_random [OF sel assms(2)] obtain records
    where ld: "load_file_lines fs st (expanduser fs path) col (strip_whitespace args)
             (ignore_blank_lines args) = Inr (records, st1)"
      and n: "n = int (length records)"
      and pk: "py_index records (fst (randrange rm g (int (length records)))) =
               Inr (LineRecord i t)"
      and g1: "g1 = snd (randrange rm g (int (length records)))"
    by blast
  from Cons.IH [OF rest] obtain new
    where new: "segs' = (segs @ [?sg]) @ new"
      and pks: "map (\<lambda>sg. Inr (LineRecord (seg_line_index sg) (seg_text sg))) new =
               random_picks rm g1
                 (loaded_lists fs (strip_whitespace args) (ignore_blank_lines args) st1
                    (map (\<lambda>f. split_path_and_column f (csv_column args)) files))"
      and tot: "map seg_total_lines new =
               map (\<lambda>l. int (length l))
                 (loaded_lists fs (strip_whitespace args) (ignore_blank_lines args) st1
                    (map (\<lambda>f. split_path_and_column f (csv_column args)) files))"
      and src: "map (\<lambda>sg. (seg_file sg, seg_column sg)) new =
               map (\<lambda>f. split_path_and_column f (csv_column args)) files"
    by blast
  show ?case
    by (rule exI [of _ "?sg # new"]) (simp add: new pks tot src sp ld n pk g1)
qed

lemma load_file_lines_cache:
  assumes "c_cache st2 = c_cache st"
  shows "map_sum id fst (load_file_lines fs st2 path col s ib) =
         map_sum id fst (load_file_lines fs st path col s ib)
       \<and> (\<forall>r1 s1 r2 s2. load_file_lines fs st path col s ib = Inr (r1, s1)
            \<and> load_file_lines fs st2 path col s ib = Inr (r2, s2) \<longrightarrow> c_cache s2 = c_cache s1)"
  using assms
  by (auto simp: load_file_lines_def Let_def split: option.splits sum.splits)

lemma loaded_lists_cache:
  "c_cache st2 = c_cache st \<Longrightarrow>
     loaded_lists fs s ib st2 sources = loaded_lists fs s ib st sources"
proof (induction sources arbitrary: st st2)
  case Nil
  show ?case by simp
next
  case (Cons src sources)
  obtain path col where src: "src = (path, col)" by (cases src)
  note c = load_file_lines_cache [OF Cons.prems, of fs "expanduser fs path" col s ib]
  show ?case
  proof (cases "load_file_lines fs st (expanduser fs path) col s ib")
    case (Inl e)
    with c show ?thesis
      by (cases "load_file_lines fs st2 (expanduser fs path) col s ib") (simp_all add: src)
  next
    case (Inr p)
    obtain r1 s1 where p: "p = (r1, s1)" by (cases p)
    from c Inr p obtain r2 s2
      where l2: "load_file_lines fs st2 (expanduser fs path) col s ib = Inr (r2, s2)"
      by (cases "load_file_lines fs st2 (expanduser fs path) col s ib") auto
    with c Inr p have "r2 = r1" and "c_cache s2 = c_cache s1" by auto
    with Cons.IH [of s2 s1] Inr p l2 show ?thesis by (simp add: src)
  qed
qed

subsection \<open>The numbering of the records\<close>

lemma text_records_enumerate:
  "text_records s ib idx xs =
     enumerate_kept ib idx (map (\<lambda>line. if s then py_strip (py_rstrip_nl line)
                                           else py_rstrip_nl line) xs)"
  by (induction xs arbitrary: idx) (auto simp: Let_def)

lemma csv_dict_records_enumerate:
  "csv_dict_records c s ib idx xs =
     enumerate_kept ib idx (map (\<lambda>row. if s then py_strip (row_get row c) else row_get row c) xs)"
  by (induction xs arbitrary: idx) (auto simp: Let_def)

lemma csv_list_records_enumerate:
  "csv_list_records s ib idx xs =
     enumerate_kept ib idx
       (map (\<lambda>row. if s then py_strip (py_join '', '' (map py_strip row))
                   else py_join '', '' row) xs)"
  by (induction xs arbitrary: idx) (auto simp: Let_def)

lemma docx_records_enumerate:
  "docx_records s ib idx xs = enumerate_kept ib idx (map (\<lambda>p. if s then py_strip p else p) xs)"
  by (induction xs arbitrary: idx) (auto simp: Let_def)

lemma read_file_records_enumerate:
  assumes "read_file_records fs path col s ib = Inr recs"
  shows "recs = enumerate_kept ib 1 (source_texts fs path col s)"
proof -
  let ?ext = "py_lower (snd (splitext fs path))"
  consider (plain) "?ext = ''.txt'' \<or> ?ext = ''.log'' \<or> ?ext = ''.md''"
    | (csv) "?ext = ''.csv''" | (docx) "?ext = ''.docx''"
    | (other) "?ext \<noteq> ''.txt''" "?ext \<noteq> ''.log''" "?ext \<noteq> ''.md''" "?ext \<noteq> ''.csv''"
        "?ext \<noteq> ''.docx''"
    by blast
  then show ?thesis
  proof cases
    case plain
    with assms show ?thesis
      by (auto simp: read_file_records_def source_texts_def read_markdown_def read_text_file_def
            text_records_enumerate Let_def split: if_splits)
  next
    case csv
    with assms show ?thesis
      by (cases s)
        (auto simp: read_file_records_def source_texts_def read_csv_def
            csv_dict_records_enumerate csv_list_records_enumerate Let_def
            split: if_splits prod.splits option.splits)
  next
    case docx
    with assms show ?thesis
      by (auto simp: read_file_records_def source_texts_def read_docx_def
            docx_records_enumerate Let_def split: if_splits)
  next
    case other
    with assms show ?thesis by (simp add: read_file_records_def Let_def)
  qed
qed

lemma source_texts_length: "length (source_texts fs path col s) = source_rows fs path col"
  by (simp add: source_texts_def source_rows_def Let_def split: option.splits)

lemma filter_upt_Suc_shift:
  "filter P [0..<Suc n] = (if P 0 then [0] else []) @ map Suc (filter (\<lambda>i. P (Suc i)) [0..<n])"
proof -
  have "[0..<Suc n] = 0 # map Suc [0..<n]"
    by (simp add: upt_conv_Cons map_Suc_upt del: upt_Suc)
  then show ?thesis by (simp add: filter_map comp_def del: upt_Suc)
qed

lemma enumerate_kept_positions:
  "enumerate_kept ib idx ts =
     map (\<lambda>i. LineRecord (idx + int i) (ts ! i))
       (filter (\<lambda>i. \<not> (ib \<and> ts ! i = [])) [0..<length ts])"
proof (induction ts arbitrary: idx)
  case Nil
  show ?case by simp
next
  case (Cons t ts)
  let ?keep = "\<lambda>us i. \<not> (ib \<and> us ! i = [])"
  have tl: "map (\<lambda>i. LineRecord (idx + int i) ((t # ts) ! i))
          (map Suc (filter (\<lambda>i. ?keep (t # ts) (Suc i)) [0..<length ts])) =
        enumerate_kept ib (idx + 1) ts"
    unfolding Cons.IH [of "idx + 1"] by (simp add: comp_def add.assoc)
  have "filter (?keep (t # ts)) [0..<length (t # ts)] =
        (if ?keep (t # ts) 0 then [0] else [])
        @ map Suc (filter (\<lambda>i. ?keep (t # ts) (Suc i)) [0..<length ts])"
    using filter_upt_Suc_shift [of "?keep (t # ts)" "length ts"] by simp
  then have "map (\<lambda>i. LineRecord (idx + int i) ((t # ts) ! i))
          (filter (?keep (t # ts)) [0..<length (t # ts)]) =
        (if ib \<and> t = [] then [] else [LineRecord idx t]) @ enumerate_kept ib (idx + 1) ts"
    using tl by (simp del: upt_Suc)
  then show ?case by (simp del: upt_Suc)
qed

lemma enumerate_kept_index:
  "r \<in> set (enumerate_kept ib idx ts) \<Longrightarrow> idx \<le> line_index r"
  by (induction ts arbitrary: idx) (fastforce split: if_splits)+

lemma enumerate_kept_skipped:
  "j < length (enumerate_kept ib idx ts) \<Longrightarrow>
     line_index (enumerate_kept ib idx ts ! j) =
       idx + int j
       + int (length (filter (\<lambda>t. ib \<and> t = [])
                (take (nat (line_index (enumerate_kept ib idx ts ! j) - idx)) ts)))"
proof (induction ts arbitrary: idx j)
  case Nil
  then show ?case by simp
next
  case (Cons t ts)
  let ?blank = "\<lambda>t. ib \<and> t = []"
  have step: "li = idx + int k' + int (length (filter ?blank (take (nat (li - idx)) (t # ts))))"
    if k: "k < length (enumerate_kept ib (idx + 1) ts)"
      and li: "li = line_index (enumerate_kept ib (idx + 1) ts ! k)"
      and k': "int k' = int k + (if ?blank t then 0 else 1)"
    for k k' li
  proof -
    have ge: "idx + 1 \<le> li"
      using enumerate_kept_index [of "enumerate_kept ib (idx + 1) ts ! k" ib "idx + 1" ts] k li
      by simp
    then have "nat (li - idx) = Suc (nat (li - (idx + 1)))" by simp
    then have tk: "take (nat (li - idx)) (t # ts) = t # take (nat (li - (idx + 1))) ts" by simp
    have "li = idx + 1 + int k
              + int (length (filter ?blank (take (nat (li - (idx + 1))) ts)))"
      using Cons.IH [OF k] li by simp
    then show ?thesis unfolding tk using k' by (cases "?blank t") auto
  qed
  show ?case
  proof (cases "?blank t")
    case True
    with Cons.prems have k: "j < length (enumerate_kept ib (idx + 1) ts)" by simp
    have e: "enumerate_kept ib idx (t # ts) ! j = enumerate_kept ib (idx + 1) ts ! j"
      using True by simp
    show ?thesis unfolding e using True by (intro step [OF k refl]) simp
  next
    case False
    show ?thesis
    proof (cases j)
      case 0
      with False show ?thesis by auto
    next
      case (Suc k)
      with Cons.prems False have k: "k < length (enumerate_kept ib (idx + 1) ts)" by auto
      have e: "enumerate_kept ib idx (t # ts) ! j = enumerate_kept ib (idx + 1) ts ! k"
        using False Suc by auto
      show ?thesis unfolding e using False Suc by (intro step [OF k refl]) auto
    qed
  qed
qed

subsection \<open>Concrete runs of the composer\<close>

lemma demo_fs_lines:
  "file_iter_lines (read_content demo_fs p) =
     [[CHR ''a'', CHR 0x0A], [CHR '' '', CHR ''b'', CHR 0x0A], [CHR ''c'', CHR 0x0A]]"
  "file_iter_lines (read_content demo_fs_blank p) = [[CHR 0x0A], [CHR ''b'', CHR 0x0A]]"
  "file_iter_lines (read_content demo_fs_edited p) = [[CHR ''x'', CHR 0x0A]]"
  by (simp_all add: demo_fs_def demo_fs_blank_def demo_fs_edited_def file_iter_lines_def)

lemma demo_fs_variants:
  "getmtime demo_fs_blank p = 1" "getmtime demo_fs_edited p = 1"
  "splitext demo_fs_blank p = splitext demo_fs p" "splitext demo_fs_edited p = splitext demo_fs p"
  "expanduser demo_fs_blank p = p" "expanduser demo_fs_edited p = p"
  "isfile demo_fs_blank p = (p = ''a.txt'')" "isfile demo_fs_edited p = (p = ''a.txt'')"
  by (simp_all add: demo_fs_def demo_fs_blank_def demo_fs_edited_def)

lemma demo_strip_nl:
  "py_strip (py_rstrip_nl [CHR ''a'', CHR 0x0A]) = ''a''"
  "py_strip (py_rstrip_nl [CHR '' '', CHR ''b'', CHR 0x0A]) = ''b''"
  "py_strip (py_rstrip_nl [CHR ''c'', CHR 0x0A]) = ''c''"
  "py_strip (py_rstrip_nl [CHR ''b'', CHR 0x0A]) = ''b''"
  "py_strip (py_rstrip_nl [CHR ''x'', CHR 0x0A]) = ''x''"
  "py_strip (py_rstrip_nl [CHR 0x0A]) = []"
  "py_rstrip_nl [CHR ''a'', CHR 0x0A] = ''a''"
  "py_rstrip_nl [CHR '' '', CHR ''b'', CHR 0x0A] = '' b''"
  "py_rstrip_nl [CHR ''c'', CHR 0x0A] = ''c''"
  by (simp_all add: py_strip_def py_lstrip_def py_rstrip_def py_isspace_def py_rstrip_nl_def)

lemma demo_read_records:
  "read_file_records demo_fs ''a.txt'' None True True = Inr demo_records"
  "read_file_records demo_fs ''a.txt'' None False True = Inr demo_records_raw"
  "read_file_records demo_fs_blank ''a.txt'' None True True = Inr [LineRecord 2 ''b'']"
  "read_file_records demo_fs_edited ''a.txt'' None True True = Inr [LineRecord 1 ''x'']"
  by (simp_all add: read_file_records_def demo_fs_variants demo_fs_text read_text_file_def
        demo_fs_lines demo_strip_nl demo_strip demo_records_def demo_records_raw_def Let_def)

lemma demo_key: "source_key ''a.txt'' None = ''a.txt::''"
  by (simp add: source_key_def)

lemma demo_load_first:
  "load_file_lines demo_fs composer_init ''a.txt'' None True True =
     Inr (demo_records, demo_composer demo_records True True Map.empty 0)"
  "load_file_lines demo_fs_blank composer_init ''a.txt'' None True True =
     Inr ([LineRecord 2 ''b''], demo_composer [LineRecord 2 ''b''] True True Map.empty 0)"
  by (simp_all add: load_file_lines_def demo_key composer_init_def demo_read_records
        demo_composer_def demo_fs_path demo_fs_variants)

lemma demo_load_other_flags:
  "load_file_lines demo_fs (demo_composer recs True True pos gs) ''a.txt'' None False True =
     Inr (demo_records_raw, demo_composer demo_records_raw False True pos gs)"
  "load_file_lines demo_fs_edited (demo_composer recs False True pos gs) ''a.txt'' None True True =
     Inr ([LineRecord 1 ''x''], demo_composer [LineRecord 1 ''x''] True True pos gs)"
  by (simp_all add: load_file_lines_def demo_key demo_read_records demo_composer_def
        demo_fs_path demo_fs_variants)

lemma demo_load_same_flags:
  "load_file_lines demo_fs (demo_composer recs True True pos gs) ''a.txt'' None True True =
     Inr (recs, demo_composer recs True True pos gs)"
  by (simp add: load_file_lines_def demo_key demo_composer_def demo_fs_path)

lemma demo_load_empty:
  "load_file_lines demo_fs \<lparr> c_cache = Map.empty, c_positions = pos, c_global_step = gs \<rparr>
       ''a.txt'' None True True =
     Inr (demo_records, demo_composer demo_records True True pos gs)"
  by (simp add: load_file_lines_def demo_key demo_read_records demo_composer_def demo_fs_path)

lemma demo_load_edited:
  "load_file_lines demo_fs_edited (demo_composer recs True True pos gs) ''a.txt'' None True True =
     Inr (recs, demo_composer recs True True pos gs)"
  by (simp add: load_file_lines_def demo_key demo_composer_def demo_fs_variants)

lemma demo_gather:
  "gather_files demo_fs (demo_args sel seed rs) = Inr [''a.txt'']"
  "gather_files demo_fs_edited (demo_args sel seed rs) = Inr [''a.txt'']"
  by (simp_all add: gather_files_def demo_args_def parse_manual_paths_def py_splitlines_def
        py_linebreak_def py_strip_def py_lstrip_def py_rstrip_def py_isspace_def
        startswith_hash_def py_slice_to_def)

lemma demo_split: "split_path_and_column ''a.txt'' [] = (''a.txt'', None)"
  by (simp add: split_path_and_column_def py_strip_def py_lstrip_def py_rstrip_def
        py_isspace_def or_None_def)

lemma demo_args_sel:
  "reset (demo_args sel seed rs) = rs" "random_seed (demo_args sel seed rs) = seed"
  "custom_inserts (demo_args sel seed rs) = []" "prefix_text (demo_args sel seed rs) = []"
  "suffix_text (demo_args sel seed rs) = []" "csv_column (demo_args sel seed rs) = []"
  "selection_mode (demo_args sel seed rs) = sel" "strip_whitespace (demo_args sel seed rs)"
  "ignore_blank_lines (demo_args sel seed rs)" "auto_space (demo_args sel seed rs)"
  "mode (demo_args sel seed rs) = ''MANUAL''"
  by (simp_all add: demo_args_def)

lemma demo_rm_twice_sel:
  "Random demo_rm_twice seed = seed" "randrange demo_rm_twice g n = ((2 * g) mod n, g + 1)"
  by (simp_all add: demo_rm_twice_def)

lemma demo_compose_random_first:
  "compose demo_fs demo_rm_twice g composer_init (demo_args ''RANDOM'' 7 False) =
     (Inr (demo_output ''RANDOM'' ''c'' 3), demo_composer demo_records True True Map.empty 1)"
  by (simp add: compose_def demo_gather demo_args_sel parse_custom_inserts_def make_rng_def
        composer_init_def demo_split select_line_from_file_def demo_fs_path demo_load_empty
        demo_rm_twice_sel py_index_def demo_output_def Let_def)
    (simp add: demo_records_def demo_composer_def)

lemma demo_compose_failing:
  "compose demo_fs demo_rm_twice g st ((demo_args ''RANDOM'' 7 False) \<lparr> mode := ''OTHER'' \<rparr>) =
     (Inl (ValueError ''Unknown mode''), st)"
  by (simp add: compose_def gather_files_def demo_args_def)

lemma demo_compose_random_second:
  "compose demo_fs demo_rm_twice g (demo_composer demo_records True True Map.empty 1)
       (demo_args ''RANDOM'' 7 False) =
     (Inr (demo_output ''RANDOM'' ''b'' 2), demo_composer demo_records True True Map.empty 2)"
proof -
  have s: "(demo_composer demo_records True True Map.empty 1)
             \<lparr> c_global_step := c_global_step (demo_composer demo_records True True Map.empty 1) + 1 \<rparr>
           = demo_composer demo_records True True Map.empty 2"
    by (simp add: demo_composer_def)
  show ?thesis
    by (simp add: compose_def demo_gather demo_args_sel parse_custom_inserts_def make_rng_def s
          demo_split select_line_from_file_def demo_fs_path demo_load_same_flags
          demo_rm_twice_sel py_index_def demo_output_def Let_def)
      (simp add: demo_records_def demo_composer_def)
qed

lemma demo_compose_reset:
  "compose demo_fs_edited demo_rm g
       (demo_composer demo_records True True [''a.txt::'' \<mapsto> 2] 2)
       (demo_args ''SEQUENTIAL'' (- 1) True) =
     (Inr (demo_output ''SEQUENTIAL'' ''a'' 1),
      demo_composer demo_records True True [''a.txt::'' \<mapsto> 1] 1)"
proof -
  have s: "(composer_reset_state (demo_composer demo_records True True [''a.txt::'' \<mapsto> 2] 2))
             \<lparr> c_global_step :=
                 c_global_step (composer_reset_state
                   (demo_composer demo_records True True [''a.txt::'' \<mapsto> 2] 2)) + 1 \<rparr>
           = demo_composer demo_records True True Map.empty 1"
    by (simp add: demo_composer_def composer_reset_state_def)
  have p: "positions_get (demo_composer demo_records True True Map.empty 1) k = 0" for k
    by (simp add: positions_get_def demo_composer_def)
  have u: "(demo_composer demo_records True True Map.empty 1)
             \<lparr> c_positions := (c_positions (demo_composer demo_records True True Map.empty 1))
                 (''a.txt::'' \<mapsto> 1) \<rparr>
           = demo_composer demo_records True True [''a.txt::'' \<mapsto> 1] 1"
    by (simp add: demo_composer_def)
  show ?thesis
    by (simp add: compose_def demo_gather demo_args_sel parse_custom_inserts_def make_rng_def s
          demo_split select_line_from_file_def demo_fs_variants demo_load_edited demo_key p u
          py_index_def demo_output_def Let_def)
      (simp add: demo_records_def)
qed

lemma demo_source_blank:
  "source_texts demo_fs_blank ''a.txt'' None True = [[], ''b'']"
  "source_rows demo_fs_blank ''a.txt'' None = 2"
  by (simp_all add: source_texts_def source_rows_def demo_fs_variants demo_fs_text demo_fs_lines
        demo_strip_nl Let_def)

section \<open>Facts about the counter\<close>












section \<open>The claims\<close>



text \<open>
  C2. The sequencer with \<open>max_steps = N \<ge> 0\<close> and \<open>auto_reset = false\<close>: once a call has
  returned \<open>done = true\<close> (for \<open>N \<ge> 1\<close> the \<open>N\<close>-th emission is the first such call; the
  state then has \<open>emitted_steps \<ge> N\<close>), every later call with the same inputs, no explicit
  reset and the file unchanged (same path, still a file, same modification time) returns
  \<open>done = true\<close> with the very triple (prompt, line\_index, step\_index) and total that
  call returned, and leaves the state as it is.
\<close>

theorem exhausted_hold_frozen:
  assumes "0 \<le> ms"
    and "next_prompt fs st fp sv stp ms False rs col sw = Inr ((p, idx, k, t, d), st')"
    and "d"
    and "expanduser fs' fp = expanduser fs fp"
    and "isfile fs' (expanduser fs fp)"
    and "getmtime fs' (expanduser fs fp) = getmtime fs (expanduser fs fp)"
  shows "ms \<le> s_emitted_steps st'
       \<and> seq_calls n fs' st' fp sv stp ms False col sw =
               Inr (replicate n (p, idx, k, t, True), st')"
proof -
  note a = next_prompt_after [OF assms(2)]
  from a assms(3) have e: "ms \<le> s_emitted_steps st'" by simp
  moreover have "seq_calls n fs' st' fp sv stp ms False col sw =
           Inr (replicate n (s_last_prompt st', s_last_line_index st', s_last_step_index st',
                             s_total_lines st', True), st')"
    using a assms e by (intro seq_calls_hold) simp_all
  ultimately show ?thesis using a by simp
qed

theorem exhausted_hold_frozen_witness:
  "(0::int) \<le> 2
   \<and> next_prompt demo_fs (demo_seq 1 1 2 False 2 1 ''a'' 1 1) ''a.txt'' 1 1 2 False False [] True =
        Inr ((''b'', 2, 2, 3, True), demo_seq 1 1 2 False 3 2 ''b'' 2 2)
   \<and> expanduser demo_fs ''a.txt'' = expanduser demo_fs ''a.txt''
   \<and> isfile demo_fs (expanduser demo_fs ''a.txt'')
   \<and> 2 \<le> s_emitted_steps (demo_seq 1 1 2 False 3 2 ''b'' 2 2)
   \<and> seq_calls 3 demo_fs (demo_seq 1 1 2 False 3 2 ''b'' 2 2) ''a.txt'' 1 1 2 False [] True =
        Inr ([(''b'', 2, 2, 3, True), (''b'', 2, 2, 3, True), (''b'', 2, 2, 3, True)],
             demo_seq 1 1 2 False 3 2 ''b'' 2 2)"
proof -
  have n: "next_prompt demo_fs (demo_seq 1 1 2 False 2 1 ''a'' 1 1) ''a.txt'' 1 1 2 False False
             [] True = Inr ((''b'', 2, 2, 3, True), demo_seq 1 1 2 False 3 2 ''b'' 2 2)"
    by (simp add: next_prompt_def demo_gate_keep demo_emit_b demo_seq_sel)
  have f: "isfile demo_fs (expanduser demo_fs ''a.txt'')"
    by (simp add: demo_fs_path)
  have r: "replicate 3 x = [x, x, x]" for x :: seq_output
    by (simp add: numeral_3_eq_3)
  show ?thesis
    using exhausted_hold_frozen [where ms = 2 and fs = demo_fs and fs' = demo_fs
        and st = "demo_seq 1 1 2 False 2 1 ''a'' 1 1" and fp = "''a.txt''" and sv = 1
        and stp = 1 and rs = False and col = "[]" and sw = True and p = "''b''" and idx = 2
        and k = 2 and t = 3 and d = True and st' = "demo_seq 1 1 2 False 3 2 ''b'' 2 2"
        and n = 3] n f
    by (simp add: r)
qed



text \<open>
  C4. The composer's sequential selection, for a source (path and column) whose file
  exists and loads to the non-empty list \<open>records\<close>: the cursor of a key the table does
  not hold reads as 0 (so every cursor of a new instance starts at 0); a selection
  returns the record at \<open>cursor mod len(records)\<close> and stores \<open>cursor + 1\<close>, unreduced,
  under the key; \<open>n\<close> consecutive selections return the records at
  \<open>(cursor + i) mod len(records)\<close> for \<open>i = 0, \<dots>, n - 1\<close> and leave \<open>cursor + n\<close> stored;
  and the record selected at a cursor is the one selected \<open>len(records)\<close> cursors later,
  so the pattern has period \<open>len(records)\<close>.
\<close>

theorem sequential_cursor:
  assumes "isfile fs (expanduser fs path)"
    and "load_file_lines fs st (expanduser fs path) col s ib = Inr (records, st1)"
    and "records \<noteq> []"
  shows "positions_get composer_init key = 0
       \<and> select_line_from_file fs rm st path col ''SEQUENTIAL'' s ib rng =
           Inr (record_at records (positions_get st (source_key (expanduser fs path) col)),
                st1 \<lparr> c_positions := (c_positions st)(source_key (expanduser fs path) col \<mapsto>
                          positions_get st (source_key (expanduser fs path) col) + 1) \<rparr>,
                rng)
       \<and> select_calls n fs rm st path col s ib rng =
           Inr (map (\<lambda>i. record_at records
                            (positions_get st (source_key (expanduser fs path) col) + int i))
                  [0..<n],
                if n = 0 then st
                else st1 \<lparr> c_positions := (c_positions st)(source_key (expanduser fs path) col \<mapsto>
                       positions_get st (source_key (expanduser fs path) col) + int n) \<rparr>)
       \<and> record_at records (c + int (length records)) = record_at records c
       \<and> record_at records c =
           (line_text (records ! nat (c mod int (length records))),
            line_index (records ! nat (c mod int (length records))),
            int (length records))"
proof -
  have "positions_get composer_init key = 0"
    by (simp add: positions_get_def composer_init_def)
  moreover note select_sequential [OF assms, of rm rng]
  moreover note select_calls_sequential [OF assms, of n rm rng]
  moreover have "record_at records (c + int (length records)) = record_at records c"
    by (simp add: record_at_def)
  moreover have "record_at records c =
           (line_text (records ! nat (c mod int (length records))),
            line_index (records ! nat (c mod int (length records))),
            int (length records))"
    by (simp add: record_at_def Let_def)
  ultimately show ?thesis by (intro conjI)
qed

theorem sequential_cursor_witness:
  "isfile demo_fs (expanduser demo_fs ''a.txt'')
   \<and> load_file_lines demo_fs composer_init (expanduser demo_fs ''a.txt'') None True True =
        Inr (demo_records, demo_composer demo_records True True Map.empty 0)
   \<and> demo_records \<noteq> []
   \<and> select_calls 5 demo_fs demo_rm composer_init ''a.txt'' None True True 0 =
        Inr ([(''a'', 1, 3), (''b'', 2, 3), (''c'', 3, 3), (''a'', 1, 3), (''b'', 2, 3)],
             demo_composer demo_records True True [''a.txt::'' \<mapsto> 5] 0)"
proof -
  have f: "isfile demo_fs (expanduser demo_fs ''a.txt'')" by (simp add: demo_fs_path)
  have l: "load_file_lines demo_fs composer_init (expanduser demo_fs ''a.txt'') None True True =
        Inr (demo_records, demo_composer demo_records True True Map.empty 0)"
    by (simp add: demo_fs_path demo_load_first)
  have ne: "demo_records \<noteq> []" by (simp add: demo_records_def)
  have u: "[0..<5] = [0, 1, 2, 3, 4]" by (simp add: upt_rec)
  have ev: "map (\<lambda>i. record_at demo_records
                   (positions_get composer_init (source_key (expanduser demo_fs ''a.txt'') None)
                    + int i)) [0..<5] =
        [(''a'', 1, 3), (''b'', 2, 3), (''c'', 3, 3), (''a'', 1, 3), (''b'', 2, 3)]"
    by (simp add: u record_at_def demo_records_def positions_get_def composer_init_def)
  have fin: "(if (5::nat) = 0 then composer_init
        else (demo_composer demo_records True True Map.empty 0)
               \<lparr> c_positions := (c_positions composer_init)
                   (source_key (expanduser demo_fs ''a.txt'') None \<mapsto>
                      positions_get composer_init (source_key (expanduser demo_fs ''a.txt'') None)
                      + int 5) \<rparr>) =
        demo_composer demo_records True True [''a.txt::'' \<mapsto> 5] 0"
    by (simp add: demo_fs_path demo_key positions_get_def composer_init_def demo_composer_def)
  note t = sequential_cursor [OF f l ne, of "''a.txt::''" demo_rm 0 5 0]
  note sc = t [THEN conjunct2, THEN conjunct2, THEN conjunct1, unfolded ev fin]
  from f l ne sc show ?thesis by (intro conjI)
qed

text \<open>
  C5, as the code has it. The cache is keyed by the string \<open>path::column\<close> alone; the strip
  and ignore-blank flags are stored in the entry and compared on lookup. Requests with the
  same path and column thus share one entry whatever their flags: after a load with flags
  A and then a load with other flags B, the entry holds the records and flags of B; a
  third request with flags A is a miss (whatever the file then holds) that reads the file
  again and overwrites the entry; a request with flags B while the modification time is
  unchanged is a hit that returns the stored records and leaves the state as it is.
\<close>

theorem cache_entry_per_path_and_column:
  assumes "load_file_lines fs st path col sA iA = Inr (rA, s1)"
    and "load_file_lines fs s1 path col sB iB = Inr (rB, s2)"
    and "(sA, iA) \<noteq> (sB, iB)"
  shows "c_cache s2 (source_key path col) =
           Some \<lparr> ce_mtime = getmtime fs path, ce_records = rB, ce_strip = sB,
                  ce_ignore_blank = iB \<rparr>
       \<and> \<not> cache_hit fs' s2 path col sA iA
       \<and> load_file_lines fs' s2 path col sA iA =
           (case read_file_records fs' path col sA iA of
              Inl e \<Rightarrow> Inl e
            | Inr records \<Rightarrow>
                Inr (records,
                     s2 \<lparr> c_cache := (c_cache s2)(source_key path col \<mapsto>
                            \<lparr> ce_mtime = getmtime fs' path, ce_records = records,
                              ce_strip = sA, ce_ignore_blank = iA \<rparr>) \<rparr>))
       \<and> (getmtime fs'' path = getmtime fs path \<longrightarrow>
            cache_hit fs'' s2 path col sB iB
          \<and> load_file_lines fs'' s2 path col sB iB = Inr (rB, s2))"
proof -
  note e = load_file_lines_result [OF assms(2)]
  then have c: "c_cache s2 (source_key path col) =
           Some \<lparr> ce_mtime = getmtime fs path, ce_records = rB, ce_strip = sB,
                  ce_ignore_blank = iB \<rparr>" by simp
  have m: "\<not> cache_hit fs' s2 path col sA iA"
    using c assms(3) by (auto simp: cache_hit_def)
  have h: "cache_hit fs'' s2 path col sB iB
          \<and> load_file_lines fs'' s2 path col sB iB = Inr (rB, s2)"
    if "getmtime fs'' path = getmtime fs path"
  proof
    show "cache_hit fs'' s2 path col sB iB" using c that by (simp add: cache_hit_def)
    show "load_file_lines fs'' s2 path col sB iB = Inr (rB, s2)"
      using assms(2) refl that by (rule load_file_lines_again)
  qed
  from c m load_file_lines_miss [OF m] h show ?thesis by blast
qed

theorem cache_entry_per_path_and_column_witness:
  "load_file_lines demo_fs composer_init ''a.txt'' None True True =
     Inr (demo_records, demo_composer demo_records True True Map.empty 0)
   \<and> load_file_lines demo_fs (demo_composer demo_records True True Map.empty 0) ''a.txt'' None
        False True = Inr (demo_records_raw, demo_composer demo_records_raw False True Map.empty 0)
   \<and> (True, True) \<noteq> (False, True)
   \<and> getmtime demo_fs_edited ''a.txt'' = getmtime demo_fs ''a.txt''
   \<and> \<not> cache_hit demo_fs (demo_composer demo_records_raw False True Map.empty 0) ''a.txt'' None
          True True
   \<and> cache_hit demo_fs_edited (demo_composer demo_records_raw False True Map.empty 0) ''a.txt''
        None False True
   \<and> load_file_lines demo_fs_edited (demo_composer demo_records_raw False True Map.empty 0)
        ''a.txt'' None False True =
        Inr (demo_records_raw, demo_composer demo_records_raw False True Map.empty 0)"
proof -
  have a: "load_file_lines demo_fs composer_init ''a.txt'' None True True =
     Inr (demo_records, demo_composer demo_records True True Map.empty 0)"
    by (rule demo_load_first)
  have b: "load_file_lines demo_fs (demo_composer demo_records True True Map.empty 0) ''a.txt''
        None False True =
        Inr (demo_records_raw, demo_composer demo_records_raw False True Map.empty 0)"
    by (rule demo_load_other_flags)
  have n: "(True, True) \<noteq> (False, True)" by simp
  have t: "getmtime demo_fs_edited ''a.txt'' = getmtime demo_fs ''a.txt''"
    by (simp add: demo_fs_variants demo_fs_path)
  from cache_entry_per_path_and_column [OF a b n, of demo_fs demo_fs_edited] a b t
  show ?thesis by simp
qed

text \<open>
  C5 as the claim states it fails: after a load of \<open>a.txt\<close> with stripping on and a load
  with stripping off, the request with stripping on again is no hit: it does not return
  the records stored by the first load but reads the file, here rewritten meanwhile
  with its modification time kept, and returns the new content.
\<close>

theorem cache_flags_counterexample:
  "load_file_lines demo_fs composer_init ''a.txt'' None True True =
     Inr (demo_records, demo_composer demo_records True True Map.empty 0)
   \<and> load_file_lines demo_fs (demo_composer demo_records True True Map.empty 0) ''a.txt'' None
        False True = Inr (demo_records_raw, demo_composer demo_records_raw False True Map.empty 0)
   \<and> getmtime demo_fs_edited ''a.txt'' = getmtime demo_fs ''a.txt''
   \<and> \<not> cache_hit demo_fs_edited (demo_composer demo_records_raw False True Map.empty 0)
          ''a.txt'' None True True
   \<and> load_file_lines demo_fs_edited (demo_composer demo_records_raw False True Map.empty 0)
        ''a.txt'' None True True =
        Inr ([LineRecord 1 ''x''], demo_composer [LineRecord 1 ''x''] True True Map.empty 0)
   \<and> [LineRecord 1 ''x''] \<noteq> demo_records"
  by (simp add: demo_load_first demo_load_other_flags demo_fs_variants demo_fs_path
        demo_records_def)
    (simp add: cache_hit_def demo_key demo_composer_def)

text \<open>
  C6, as the code has it. The records a reader of the composer returns are the texts of
  the lines, rows or paragraphs read, each numbered by its 1-based position in the
  unfiltered read order, with the empty texts left out when \<open>ignore_blank\<close> is on. So the
  \<open>line_index\<close> of the record at list position \<open>j\<close> (counted from 1) is \<open>j\<close> plus the
  number of blank entries skipped before it; it lies between 1 and the number of entries
  read, and the indices increase strictly along the list. With \<open>ignore_blank\<close> off
  nothing is left out, the \<open>i\<close>-th record has index \<open>i\<close>, and every index is at most
  \<open>len(records)\<close>. On a cache miss \<open>_load_file_lines\<close> returns the reader's list.
\<close>

theorem record_index_unfiltered:
  assumes "read_file_records fs path col s ib = Inr recs"
  shows "recs = map (\<lambda>i. LineRecord (int i + 1) (source_texts fs path col s ! i))
                  (filter (\<lambda>i. \<not> (ib \<and> source_texts fs path col s ! i = []))
                     [0..<source_rows fs path col])
       \<and> length (source_texts fs path col s) = source_rows fs path col
       \<and> (\<forall>j<length recs.
            line_index (recs ! j) =
              int j + 1
              + int (length (filter (\<lambda>t. ib \<and> t = [])
                       (take (nat (line_index (recs ! j) - 1)) (source_texts fs path col s)))))
       \<and> (\<forall>r \<in> set recs. 1 \<le> line_index r \<and> line_index r \<le> int (source_rows fs path col))
       \<and> sorted_wrt (<) (map line_index recs)
       \<and> (\<not> ib \<longrightarrow> map line_index recs = map (\<lambda>i. 1 + int i) [0..<length recs]
                  \<and> (\<forall>r \<in> set recs. line_index r \<le> int (length recs)))
       \<and> (\<not> cache_hit fs st path col s ib \<longrightarrow>
            (\<exists>st'. load_file_lines fs st path col s ib = Inr (recs, st')))"
proof -
  note i = read_file_records_index [OF assms]
  note e = read_file_records_enumerate [OF assms]
  note l = source_texts_length [of fs path col s]
  have p: "recs = map (\<lambda>i. LineRecord (int i + 1) (source_texts fs path col s ! i))
                  (filter (\<lambda>i. \<not> (ib \<and> source_texts fs path col s ! i = []))
                     [0..<source_rows fs path col])"
    unfolding e enumerate_kept_positions [of ib 1] l by (simp add: add.commute)
  have k: "\<forall>j<length recs.
            line_index (recs ! j) =
              int j + 1
              + int (length (filter (\<lambda>t. ib \<and> t = [])
                       (take (nat (line_index (recs ! j) - 1)) (source_texts fs path col s))))"
  proof (intro allI impI)
    fix j
    assume "j < length recs"
    then have "j < length (enumerate_kept ib 1 (source_texts fs path col s))" by (simp add: e)
    from enumerate_kept_skipped [OF this]
    show "line_index (recs ! j) =
              int j + 1
              + int (length (filter (\<lambda>t. ib \<and> t = [])
                       (take (nat (line_index (recs ! j) - 1)) (source_texts fs path col s))))"
      by (simp add: e)
  qed
  have a: "map line_index recs = map (\<lambda>i. 1 + int i) [0..<length recs]
                  \<and> (\<forall>r \<in> set recs. line_index r \<le> int (length recs))" if "\<not> ib"
  proof -
    from i that have m: "map line_index recs = map (\<lambda>i. 1 + int i) [0..<source_rows fs path col]"
      by simp
    then have "length (map line_index recs) = length (map (\<lambda>i. 1 + int i) [0..<source_rows fs path col])"
      by (rule arg_cong)
    then have "length recs = source_rows fs path col" by simp
    with m i show ?thesis by simp
  qed
  have h: "\<exists>st'. load_file_lines fs st path col s ib = Inr (recs, st')"
    if "\<not> cache_hit fs st path col s ib"
    using load_file_lines_miss [OF that] assms by simp
  from p l k i a h show ?thesis by blast
qed

theorem record_index_unfiltered_witness:
  "read_file_records demo_fs_blank ''a.txt'' None True True = Inr [LineRecord 2 ''b'']
   \<and> [LineRecord 2 ''b''] =
        map (\<lambda>i. LineRecord (int i + 1) ([[], ''b''] ! i))
          (filter (\<lambda>i. \<not> (True \<and> [[], ''b''] ! i = [])) [0..<2])
   \<and> line_index ([LineRecord 2 ''b''] ! 0) =
        int 0 + 1
        + int (length (filter (\<lambda>t. True \<and> t = [])
                 (take (nat (line_index ([LineRecord 2 ''b''] ! 0) - 1)) [[], ''b''])))
   \<and> read_file_records demo_fs ''a.txt'' None False False = Inr demo_records_raw
   \<and> sorted_wrt (<) (map line_index demo_records_raw)
   \<and> map line_index demo_records_raw = map (\<lambda>i. 1 + int i) [0..<length demo_records_raw]
   \<and> \<not> cache_hit demo_fs composer_init ''a.txt'' None False False
   \<and> (\<exists>st'. load_file_lines demo_fs composer_init ''a.txt'' None False False =
               Inr (demo_records_raw, st'))"
proof -
  have b: "read_file_records demo_fs_blank ''a.txt'' None True True = Inr [LineRecord 2 ''b'']"
    by (rule demo_read_records)
  note u = record_index_unfiltered [OF b, of composer_init, unfolded demo_source_blank]
  have b1: "[LineRecord 2 ''b''] =
        map (\<lambda>i. LineRecord (int i + 1) ([[], ''b''] ! i))
          (filter (\<lambda>i. \<not> (True \<and> [[], ''b''] ! i = [])) [0..<2])"
    using u by (elim conjE)
  have b2: "line_index ([LineRecord 2 ''b''] ! 0) =
        int 0 + 1
        + int (length (filter (\<lambda>t. True \<and> t = [])
                 (take (nat (line_index ([LineRecord 2 ''b''] ! 0) - 1)) [[], ''b''])))"
    using u [THEN conjunct2, THEN conjunct2, THEN conjunct1, rule_format, of 0] by simp
  have r: "read_file_records demo_fs ''a.txt'' None False False = Inr demo_records_raw"
    by (simp add: read_file_records_def demo_fs_text read_text_file_def demo_fs_lines
          demo_strip_nl demo_records_raw_def Let_def)
  have m: "\<not> cache_hit demo_fs composer_init ''a.txt'' None False False"
    by (simp add: cache_hit_def composer_init_def)
  note t = record_index_unfiltered [OF r, of composer_init]
  have so: "sorted_wrt (<) (map line_index demo_records_raw)"
    using t by (elim conjE)
  have al: "map line_index demo_records_raw = map (\<lambda>i. 1 + int i) [0..<length demo_records_raw]"
    using t by simp
  have ld: "\<exists>st'. load_file_lines demo_fs composer_init ''a.txt'' None False False =
               Inr (demo_records_raw, st')"
    using t m by (elim conjE) (erule mp)
  from b b1 b2 r so al m ld show ?thesis by (intro conjI)
qed

text \<open>
  C6 as the claim states it fails: \<open>a.txt\<close> with an empty first line, read with
  \<open>ignore_blank\<close> on, loads to the single record of line 2, whose index exceeds the length
  of the returned list.
\<close>

theorem record_index_counterexample:
  "load_file_lines demo_fs_blank composer_init ''a.txt'' None True True =
     Inr ([LineRecord 2 ''b''], demo_composer [LineRecord 2 ''b''] True True Map.empty 0)
   \<and> read_text_file demo_fs_blank ''a.txt'' True True = [LineRecord 2 ''b'']
   \<and> \<not> line_index (LineRecord 2 ''b'') \<le> int (length [LineRecord 2 ''b''])"
  by (simp add: demo_load_first read_text_file_def demo_fs_lines demo_strip_nl Let_def)

text \<open>
  C7. The composer with \<open>random_seed \<ge> 0\<close> in every call. Two new instances that make the
  same sequence of calls (the same arguments, call for call) over the same files return or
  raise the same in every call, the calls after a raising call included, and end in the
  same state, whatever generators the operating system would have seeded for the two
  runs. The call counter starts at 0, a call with \<open>reset\<close> puts it back to 0 first, and
  every call that finds files leaves it one higher. In a call that returns in random
  mode, the record of every source is the one at the index \<open>randrange\<close> draws, source
  after source, with the generator \<open>Random(random_seed + c)\<close>, \<open>c\<close> being the counter
  before the call (0 after a reset), from the record list that source loads. A call that
  returns leaves the counter at \<open>c + 1\<close>, so the next call of the run draws with the
  generator of another seed and may select another record from the same file.
\<close>

theorem seeded_runs_agree:
  assumes "map snd calls1 = map snd calls2"
    and "\<forall>a \<in> set (map snd calls1). 0 \<le> random_seed a"
  shows "compose_calls fs rm composer_init calls1 = compose_calls fs rm composer_init calls2
       \<and> c_global_step composer_init = 0
       \<and> c_global_step (snd (compose fs rm g st a)) =
           (if reset a then 0 else c_global_step st)
           + (case gather_files fs a of Inl e \<Rightarrow> 0 | Inr files \<Rightarrow> if files = [] then 0 else 1)
       \<and> (0 \<le> random_seed a \<and> selection_mode a \<noteq> ''SEQUENTIAL''
          \<and> compose fs rm g st a = (Inr (prompt, rep, cnt), st') \<longrightarrow>
            (\<exists>files. gather_files fs a = Inr files
               \<and> map (\<lambda>sg. (seg_file sg, seg_column sg)) (rep_segments rep) =
                   map (\<lambda>f. split_path_and_column f (csv_column a)) files
               \<and> map seg_total_lines (rep_segments rep) =
                   map (\<lambda>l. int (length l))
                     (loaded_lists fs (strip_whitespace a) (ignore_blank_lines a) st
                        (map (\<lambda>f. split_path_and_column f (csv_column a)) files))
               \<and> map (\<lambda>sg. Inr (LineRecord (seg_line_index sg) (seg_text sg))) (rep_segments rep) =
                   random_picks rm
                     (Random rm (random_seed a + (if reset a then 0 else c_global_step st)))
                     (loaded_lists fs (strip_whitespace a) (ignore_blank_lines a) st
                        (map (\<lambda>f. split_path_and_column f (csv_column a)) files))))
       \<and> (0 \<le> random_seed a \<longrightarrow> compose fs rm g st a = compose fs rm g' st a)
       \<and> (compose fs rm g st a = (Inr (prompt, rep, cnt), st') \<longrightarrow>
            c_global_step st' = (if reset a then 0 else c_global_step st) + 1)"
proof -
  have runs: "compose_calls fs rm composer_init calls1 = compose_calls fs rm composer_init calls2"
    using assms by (rule compose_calls_seeded)
  have zero: "c_global_step composer_init = 0" by (simp add: composer_init_def)
  note step = compose_step [of fs rm g st a]
  have picks: "\<exists>files. gather_files fs a = Inr files
               \<and> map (\<lambda>sg. (seg_file sg, seg_column sg)) (rep_segments rep) =
                   map (\<lambda>f. split_path_and_column f (csv_column a)) files
               \<and> map seg_total_lines (rep_segments rep) =
                   map (\<lambda>l. int (length l))
                     (loaded_lists fs (strip_whitespace a) (ignore_blank_lines a) st
                        (map (\<lambda>f. split_path_and_column f (csv_column a)) files))
               \<and> map (\<lambda>sg. Inr (LineRecord (seg_line_index sg) (seg_text sg))) (rep_segments rep) =
                   random_picks rm
                     (Random rm (random_seed a + (if reset a then 0 else c_global_step st)))
                     (loaded_lists fs (strip_whitespace a) (ignore_blank_lines a) st
                        (map (\<lambda>f. split_path_and_column f (csv_column a)) files))"
    if seeded: "0 \<le> random_seed a" and mode: "selection_mode a \<noteq> ''SEQUENTIAL''"
      and ret: "compose fs rm g st a = (Inr (prompt, rep, cnt), st')"
  proof -
    let ?st1 = "if reset a then composer_reset_state st else st"
    let ?st2 = "?st1 \<lparr> c_global_step := c_global_step ?st1 + 1 \<rparr>"
    let ?g = "Random rm (random_seed a + (if reset a then 0 else c_global_step st))"
    from ret obtain files where gf: "gather_files fs a = Inr files" and ne: "files \<noteq> []"
      by (cases "gather_files fs a") (auto simp: compose_def Let_def split: if_splits)
    have mk: "make_rng rm g ?st1 (random_seed a) = (?g, ?st2)"
      using seeded by (simp add: make_rng_def composer_reset_state_def Let_def)
    from ret gf ne mk obtain rng3 parts1
      where loop: "compose_loop fs rm a (parse_custom_inserts (custom_inserts a)) 0 files ?st2 ?g
               (if prefix_text a \<noteq> [] then [prefix_text a] else []) [] =
             (Inr (rng3, parts1, rep_segments rep), st')"
      by (auto simp: compose_def Let_def split: prod.splits sum.splits if_splits)
    have cache: "c_cache ?st2 = c_cache st" by (simp add: composer_reset_state_def)
    from compose_loop_random [OF loop mode] gf
    show ?thesis by (simp add: loaded_lists_cache [OF cache])
  qed
  have same: "0 \<le> random_seed a \<longrightarrow> compose fs rm g st a = compose fs rm g' st a"
    by (auto intro: compose_seeded)
  have adv: "c_global_step st' = (if reset a then 0 else c_global_step st) + 1"
    if ret: "compose fs rm g st a = (Inr (prompt, rep, cnt), st')"
  proof -
    from ret obtain files where gf: "gather_files fs a = Inr files" and ne: "files \<noteq> []"
      by (cases "gather_files fs a") (auto simp: compose_def Let_def split: if_splits)
    from step ret gf ne show ?thesis by simp
  qed
  from runs zero step picks same adv show ?thesis by blast
qed

theorem seeded_runs_agree_witness:
  "map snd [(100, demo_args ''RANDOM'' 7 False),
            (200, (demo_args ''RANDOM'' 7 False) \<lparr> mode := ''OTHER'' \<rparr>),
            (300, demo_args ''RANDOM'' 7 False)] =
     map snd [(5 :: int, demo_args ''RANDOM'' 7 False),
              (6, (demo_args ''RANDOM'' 7 False) \<lparr> mode := ''OTHER'' \<rparr>),
              (7, demo_args ''RANDOM'' 7 False)]
   \<and> 0 \<le> random_seed (demo_args ''RANDOM'' 7 False)
   \<and> 0 \<le> random_seed ((demo_args ''RANDOM'' 7 False) \<lparr> mode := ''OTHER'' \<rparr>)
   \<and> selection_mode (demo_args ''RANDOM'' 7 False) \<noteq> ''SEQUENTIAL''
   \<and> compose_calls demo_fs demo_rm_twice composer_init
        [(100, demo_args ''RANDOM'' 7 False),
         (200, (demo_args ''RANDOM'' 7 False) \<lparr> mode := ''OTHER'' \<rparr>),
         (300, demo_args ''RANDOM'' 7 False)] =
        ([Inr (demo_output ''RANDOM'' ''c'' 3), Inl (ValueError ''Unknown mode''),
          Inr (demo_output ''RANDOM'' ''b'' 2)],
         demo_composer demo_records True True Map.empty 2)
   \<and> compose_calls demo_fs demo_rm_twice composer_init
        [(5, demo_args ''RANDOM'' 7 False),
         (6, (demo_args ''RANDOM'' 7 False) \<lparr> mode := ''OTHER'' \<rparr>),
         (7, demo_args ''RANDOM'' 7 False)] =
        ([Inr (demo_output ''RANDOM'' ''c'' 3), Inl (ValueError ''Unknown mode''),
          Inr (demo_output ''RANDOM'' ''b'' 2)],
         demo_composer demo_records True True Map.empty 2)
   \<and> compose demo_fs demo_rm_twice 300 (demo_composer demo_records True True Map.empty 1)
        (demo_args ''RANDOM'' 7 False) =
        (Inr (demo_output ''RANDOM'' ''b'' 2), demo_composer demo_records True True Map.empty 2)
   \<and> map (\<lambda>sg. Inr (LineRecord (seg_line_index sg) (seg_text sg)))
        (rep_segments (fst (snd (demo_output ''RANDOM'' ''b'' 2)))) =
        random_picks demo_rm_twice (Random demo_rm_twice (7 + 1)) [demo_records]
   \<and> random_picks demo_rm_twice (Random demo_rm_twice (7 + 1)) [demo_records] =
        [Inr (LineRecord 2 ''b'')]
   \<and> c_global_step (demo_composer demo_records True True Map.empty 2) =
        c_global_step (demo_composer demo_records True True Map.empty 1) + 1
   \<and> demo_output ''RANDOM'' ''c'' 3 \<noteq> demo_output ''RANDOM'' ''b'' 2"
proof -
  let ?a = "demo_args ''RANDOM'' 7 False"
  let ?b = "(demo_args ''RANDOM'' 7 False) \<lparr> mode := ''OTHER'' \<rparr>"
  let ?s1 = "demo_composer demo_records True True Map.empty 1"
  let ?s2 = "demo_composer demo_records True True Map.empty 2"
  have m: "map snd [(100, ?a), (200, ?b), (300, ?a)] = map snd [(5 :: int, ?a), (6, ?b), (7, ?a)]"
    by simp
  have s: "0 \<le> random_seed ?a" "0 \<le> random_seed ?b" "selection_mode ?a \<noteq> ''SEQUENTIAL''"
    by (simp_all add: demo_args_def)
  have b: "\<forall>a \<in> set (map snd [(100 :: int, ?a), (200, ?b), (300, ?a)]). 0 \<le> random_seed a"
    using s by simp
  have r: "compose_calls demo_fs demo_rm_twice composer_init [(g1, ?a), (g2, ?b), (g3, ?a)] =
        ([Inr (demo_output ''RANDOM'' ''c'' 3), Inl (ValueError ''Unknown mode''),
          Inr (demo_output ''RANDOM'' ''b'' 2)], ?s2)" for g1 g2 g3
    by (simp add: demo_compose_random_first demo_compose_failing demo_compose_random_second)
  have c2: "compose demo_fs demo_rm_twice 300 ?s1 ?a = (Inr (demo_output ''RANDOM'' ''b'' 2), ?s2)"
    by (rule demo_compose_random_second)
  have o: "demo_output ''RANDOM'' ''b'' 2 =
        (''b'', fst (snd (demo_output ''RANDOM'' ''b'' 2)), 1)"
    by (simp add: demo_output_def)
  have c2': "compose demo_fs demo_rm_twice 300 ?s1 ?a =
        (Inr (''b'', fst (snd (demo_output ''RANDOM'' ''b'' 2)), 1), ?s2)"
    using c2 o by simp
  have ll: "loaded_lists demo_fs (strip_whitespace ?a) (ignore_blank_lines ?a) ?s1
        (map (\<lambda>f. split_path_and_column f (csv_column ?a)) [''a.txt'']) = [demo_records]"
    by (simp add: demo_args_sel demo_split demo_fs_path demo_load_same_flags)
  have gs: "random_seed ?a + (if reset ?a then 0 else c_global_step ?s1) = 7 + 1"
    by (simp add: demo_args_sel demo_composer_def)
  note t = seeded_runs_agree [OF m b, of demo_fs demo_rm_twice 300 ?s1 ?a "''b''"
      "fst (snd (demo_output ''RANDOM'' ''b'' 2))" 1 ?s2 0]
  from t s c2' obtain files where gf: "gather_files demo_fs ?a = Inr files"
    and pk: "map (\<lambda>sg. Inr (LineRecord (seg_line_index sg) (seg_text sg)))
               (rep_segments (fst (snd (demo_output ''RANDOM'' ''b'' 2)))) =
             random_picks demo_rm_twice
               (Random demo_rm_twice (random_seed ?a + (if reset ?a then 0 else c_global_step ?s1)))
               (loaded_lists demo_fs (strip_whitespace ?a) (ignore_blank_lines ?a) ?s1
                  (map (\<lambda>f. split_path_and_column f (csv_column ?a)) files))"
    by blast
  from gf have "files = [''a.txt'']" by (simp add: demo_gather)
  with pk have pk': "map (\<lambda>sg. Inr (LineRecord (seg_line_index sg) (seg_text sg)))
               (rep_segments (fst (snd (demo_output ''RANDOM'' ''b'' 2)))) =
             random_picks demo_rm_twice (Random demo_rm_twice (7 + 1)) [demo_records]"
    unfolding gs by (simp only: ll)
  have ev: "random_picks demo_rm_twice (Random demo_rm_twice (7 + 1)) [demo_records] =
        [Inr (LineRecord 2 ''b'')]"
    by (simp add: demo_rm_twice_sel py_index_def demo_records_def)
  from t c2' have "c_global_step ?s2 = (if reset ?a then 0 else c_global_step ?s1) + 1"
    by blast
  then have ad: "c_global_step ?s2 = c_global_step ?s1 + 1"
    by (simp add: demo_args_sel)
  have df: "demo_output ''RANDOM'' ''c'' 3 \<noteq> demo_output ''RANDOM'' ''b'' 2"
    by (simp add: demo_output_def)
  from m s r [of 100 200 300] r [of 5 6 7] c2 pk' ev ad df show ?thesis by (intro conjI)
qed

text \<open>
  C8. The reset that a call of \<open>compose\<close> with \<open>reset = true\<close> starts with empties the
  cursor table, puts the call counter back to its initial value 0 and leaves the cache as
  it is: the instance is then a new instance but for its cache, an entry that would be
  hit before the reset is hit after it, and the call goes on exactly as a call without
  \<open>reset\<close> on that instance.
\<close>

theorem composer_reset_frame:
  "c_positions (composer_reset_state st) = Map.empty
   \<and> c_global_step (composer_reset_state st) = c_global_step composer_init
   \<and> c_cache (composer_reset_state st) = c_cache st
   \<and> composer_reset_state st = composer_init \<lparr> c_cache := c_cache st \<rparr>
   \<and> cache_hit fs (composer_reset_state st) path col s ib = cache_hit fs st path col s ib
   \<and> compose fs rm g st (args \<lparr> reset := True \<rparr>) =
       compose fs rm g (composer_reset_state st) (args \<lparr> reset := False \<rparr>)"
proof -
  have "compose fs rm g st (args \<lparr> reset := True \<rparr>) =
       compose fs rm g (composer_reset_state st) (args \<lparr> reset := False \<rparr>)"
    unfolding compose_def gather_files_reset_flag compose_loop_reset_flag
    by (simp cong: sum.case_cong if_cong prod.case_cong)
  then show ?thesis
    by (simp add: composer_reset_state_def composer_init_def cache_hit_def)
qed

theorem composer_reset_frame_witness:
  "c_positions (composer_reset_state
      (demo_composer demo_records True True [''a.txt::'' \<mapsto> 2] 2)) = Map.empty
   \<and> c_global_step (composer_reset_state
      (demo_composer demo_records True True [''a.txt::'' \<mapsto> 2] 2)) = 0
   \<and> c_cache (composer_reset_state
      (demo_composer demo_records True True [''a.txt::'' \<mapsto> 2] 2)) =
       c_cache (demo_composer demo_records True True [''a.txt::'' \<mapsto> 2] 2)
   \<and> compose demo_fs_edited demo_rm 0
       (demo_composer demo_records True True [''a.txt::'' \<mapsto> 2] 2)
       (demo_args ''SEQUENTIAL'' (- 1) True) =
       (Inr (demo_output ''SEQUENTIAL'' ''a'' 1),
        demo_composer demo_records True True [''a.txt::'' \<mapsto> 1] 1)
   \<and> compose demo_fs_edited demo_rm 0
       (composer_reset_state (demo_composer demo_records True True [''a.txt::'' \<mapsto> 2] 2))
       (demo_args ''SEQUENTIAL'' (- 1) False) =
       (Inr (demo_output ''SEQUENTIAL'' ''a'' 1),
        demo_composer demo_records True True [''a.txt::'' \<mapsto> 1] 1)"
proof -
  let ?st = "demo_composer demo_records True True [''a.txt::'' \<mapsto> 2] 2"
  have a: "(demo_args ''SEQUENTIAL'' (- 1) False) \<lparr> reset := True \<rparr> =
        demo_args ''SEQUENTIAL'' (- 1) True"
    "(demo_args ''SEQUENTIAL'' (- 1) False) \<lparr> reset := False \<rparr> =
        demo_args ''SEQUENTIAL'' (- 1) False"
    by (simp_all add: demo_args_def)
  note t = composer_reset_frame [of ?st demo_fs_edited "''a.txt''" None True True demo_rm 0
      "demo_args ''SEQUENTIAL'' (- 1) False", unfolded a]
  have p: "c_positions (composer_reset_state ?st) = Map.empty"
    using t by (elim conjE)
  have z: "c_global_step (composer_reset_state ?st) = 0"
    using t [THEN conjunct2, THEN conjunct1] by (simp add: composer_init_def)
  have c: "c_cache (composer_reset_state ?st) = c_cache ?st"
    using t by (elim conjE)
  have d: "compose demo_fs_edited demo_rm 0 ?st (demo_args ''SEQUENTIAL'' (- 1) True) =
       (Inr (demo_output ''SEQUENTIAL'' ''a'' 1),
        demo_composer demo_records True True [''a.txt::'' \<mapsto> 1] 1)"
    by (rule demo_compose_reset)
  have e: "compose demo_fs_edited demo_rm 0 ?st (demo_args ''SEQUENTIAL'' (- 1) True) =
       compose demo_fs_edited demo_rm 0 (composer_reset_state ?st)
         (demo_args ''SEQUENTIAL'' (- 1) False)"
    using t by (elim conjE)
  have d': "compose demo_fs_edited demo_rm 0 (composer_reset_state ?st)
         (demo_args ''SEQUENTIAL'' (- 1) False) =
       (Inr (demo_output ''SEQUENTIAL'' ''a'' 1),
        demo_composer demo_records True True [''a.txt::'' \<mapsto> 1] 1)"
    using d e by simp
  from p z c d d' show ?thesis by (intro conjI)
qed




text \<open>
  C10. With \<open>max_steps = 0\<close> and \<open>auto_reset = false\<close> on a file that loads and is not
  empty, every call of \<open>next_prompt\<close> on an instance (a new one, or one reached by any
  earlier calls while the files do not change; with or without the explicit reset) returns
  the placeholder output: \<open>prompt = ""\<close>, \<open>line_index = 0\<close>, \<open>step_index = 0\<close>, together
  with \<open>done = true\<close> and \<open>total_lines\<close> equal to the number of records of the file. No
  record is emitted (\<open>emitted_steps\<close> stays 0 and \<open>next_index\<close> stays at the start value),
  and the returned \<open>line_index\<close> is outside \<open>[1, total_lines]\<close>.
\<close>

theorem zero_max_steps_placeholder:
  assumes "seq_reachable fs st"
    and "fp \<noteq> []" and "isfile fs (expanduser fs fp)"
    and "load_lines fs (expanduser fs fp) col = Inr ls" and "ls \<noteq> []"
  shows "\<exists>p idx k t d st'.
           next_prompt fs st fp sv stp 0 False rs col sw = Inr ((p, idx, k, t, d), st')
         \<and> p = [] \<and> idx = 0 \<and> k = 0 \<and> t = int (length ls) \<and> d
         \<and> \<not> (1 \<le> idx \<and> idx \<le> t)
         \<and> s_emitted_steps st' = 0 \<and> s_next_index st' = sv \<and> seq_reachable fs st'"
proof -
  let ?path = "expanduser fs fp" and ?m = "getmtime fs (expanduser fs fp)"
  obtain st2 where r: "seq_reset_state fs st ?path ?m sv stp 0 False col sw = Inr st2"
    using seq_reset_state_ok [OF assms(4,5)] by blast
  have "\<exists>stg. seq_gate fs st fp sv stp 0 False rs col sw = Inr stg"
    using assms(2,3) r by (simp add: seq_gate_def Let_def)
  then obtain stg where g: "seq_gate fs st fp sv stp 0 False rs col sw = Inr stg" by blast
  note m = seq_gate_matches [OF g]
  have ig: "seq_inv fs stg" using seq_reachable_inv [OF assms(1)] g by (rule seq_inv_gate)
  from m ig assms(4)
  have ph: "s_emitted_steps stg = 0 \<and> s_last_prompt stg = [] \<and> s_last_line_index stg = 0
         \<and> s_last_step_index stg = 0 \<and> s_next_index stg = sv
         \<and> s_total_lines stg = int (length ls)"
    by (auto simp: seq_inv_def seq_matches_def)
  have nar: "\<not> s_auto_reset stg" using m by (simp add: seq_matches_def)
  have np: "next_prompt fs st fp sv stp 0 False rs col sw =
          Inr (([], 0, 0, int (length ls), True), stg)"
    using g ph nar by (simp add: next_prompt_def)
  then have "seq_reachable fs stg"
    using assms(1) by (rule seq_reachable_call [rotated])
  with np ph show ?thesis
    by (intro exI [of _ "[]"] exI [of _ "0::int"] exI [of _ "int (length ls)"]
          exI [of _ True] exI [of _ stg]) simp
qed

theorem zero_max_steps_placeholder_witness:
  "seq_reachable demo_fs seq_init
   \<and> ''a.txt'' \<noteq> [] \<and> isfile demo_fs (expanduser demo_fs ''a.txt'')
   \<and> load_lines demo_fs (expanduser demo_fs ''a.txt'') [] = Inr [''a'', '' b'', ''c'']
   \<and> [''a'', '' b'', ''c''] \<noteq> []
   \<and> next_prompt demo_fs seq_init ''a.txt'' 1 1 0 False False [] True =
        Inr (([], 0, 0, 3, True), demo_seq 1 1 0 False 1 0 [] 0 0)
   \<and> (\<exists>p idx k t d st'.
           next_prompt demo_fs seq_init ''a.txt'' 1 1 0 False False [] True =
             Inr ((p, idx, k, t, d), st')
         \<and> p = [] \<and> idx = 0 \<and> k = 0 \<and> t = int (length [''a'', '' b'', ''c'']) \<and> d
         \<and> \<not> (1 \<le> idx \<and> idx \<le> t)
         \<and> s_emitted_steps st' = 0 \<and> s_next_index st' = 1 \<and> seq_reachable demo_fs st')"
proof -
  have r: "seq_reachable demo_fs seq_init" by (rule seq_reachable_init)
  have f: "''a.txt'' \<noteq> []" "isfile demo_fs (expanduser demo_fs ''a.txt'')"
    by (simp_all add: demo_fs_path)
  have l: "load_lines demo_fs (expanduser demo_fs ''a.txt'') [] = Inr [''a'', '' b'', ''c'']"
    by (simp add: demo_fs_path demo_load_lines)
  have ne: "[''a'', '' b'', ''c''] \<noteq> []" by simp
  have n: "next_prompt demo_fs seq_init ''a.txt'' 1 1 0 False False [] True =
        Inr (([], 0, 0, 3, True), demo_seq 1 1 0 False 1 0 [] 0 0)"
    by (simp add: next_prompt_def demo_gate_fresh demo_seq_sel) (simp add: demo_seq_def)
  from zero_max_steps_placeholder [OF r f l ne, of 1 1 False True] r f l n
  show ?thesis by simp
qed

end
